theory Spec2Isabelle
  imports Complex_Main "HOL-Library.Sublist" "HOL-Library.AList" "HOL-Library.Multiset"
begin

section \<open>JavaScript strings\<close>

text \<open>
  A JavaScript string is modelled as a \<^typ>\<open>string\<close>: the list of its code units, for
  the strings whose code units are below 256 (file paths, origins and the robots
  directive are ASCII). \<open>s.endsWith(t)\<close> is \<^term>\<open>suffix t s\<close>, \<open>s.startsWith(t)\<close> is
  \<^term>\<open>prefix t s\<close>, and "s contains t" is \<^term>\<open>sublist t s\<close>.
\<close>

definition endsWith :: "string \<Rightarrow> string \<Rightarrow> bool" where
  "endsWith s t = suffix t s"

definition startsWith :: "string \<Rightarrow> string \<Rightarrow> bool" where
  "startsWith s t = prefix t s"

text \<open>
  \<open>s.replace(pat, rep)\<close> with a string pattern replaces the first occurrence of
  \<open>pat\<close> only, scanning from the left, and returns \<open>s\<close> when there is none. (The
  replacement strings of the scripts contain no \<open>$\<close>, so they are inserted as they are.)
\<close>

fun replace_first :: "string \<Rightarrow> string \<Rightarrow> string \<Rightarrow> string" where
  "replace_first pat rep [] = (if pat = [] then rep else [])"
| "replace_first pat rep (c # cs) =
     (if prefix pat (c # cs) then rep @ drop (length pat) (c # cs)
      else c # replace_first pat rep cs)"

text \<open>\<open>s.replace(/^public/, '')\<close>: a leading \<open>public\<close> is removed.\<close>

definition strip_public :: "string \<Rightarrow> string" where
  "strip_public p = (if prefix ''public'' p then drop (length ''public'') p else p)"

text \<open>\<open>s.replace(/index\.html$/, '')\<close>: a trailing \<open>index.html\<close> is removed.\<close>

definition strip_index_html :: "string \<Rightarrow> string" where
  "strip_index_html s =
     (if suffix ''index.html'' s then take (length s - length ''index.html'') s else s)"

text \<open>\<open>s.replace(/\\/g, '/')\<close>: every backslash becomes a slash.\<close>

definition backslashes_to_slashes :: "string \<Rightarrow> string" where
  "backslashes_to_slashes s = map (\<lambda>c. if c = CHR 0x5C then CHR ''/'' else c) s"

text \<open>
  \<open>s.trim()\<close> removes white space and line terminators from both ends. Among the code
  units below 256 these are TAB, LF, VT, FF, CR, SPACE and NBSP.
\<close>

definition is_space :: "char \<Rightarrow> bool" where
  "is_space c = (c \<in> set [CHR 0x09, CHR 0x0A, CHR 0x0B, CHR 0x0C, CHR 0x0D, CHR 0x20, CHR 0xA0])"

definition trim :: "string \<Rightarrow> string" where
  "trim s = rev (dropWhile is_space (rev (dropWhile is_space s)))"

text \<open>\<open>s.split(sep)\<close> for a one-character separator: empty pieces are kept.\<close>

fun split_on :: "char \<Rightarrow> string \<Rightarrow> string list" where
  "split_on sep [] = [[]]"
| "split_on sep (c # cs) =
     (if c = sep then [] # split_on sep cs
      else (case split_on sep cs of
              [] \<Rightarrow> [[c]]
            | piece # pieces \<Rightarrow> (c # piece) # pieces))"

section \<open>Glob patterns\<close>

text \<open>
  The scripts list the pages with \<open>globby\<close>. Its patterns are matched segment by
  segment: \<open>*\<close> stands for any run of characters inside one path segment, \<open>**\<close> for any
  number of whole segments (none included), and with the package's default options
  neither matches a segment that starts with a dot. A pattern with a leading \<open>!\<close>
  removes its matches from the result.
\<close>

fun wildcard :: "string \<Rightarrow> string \<Rightarrow> bool" where
  "wildcard [] cs = (cs = [])"
| "wildcard (p # ps) [] = (p = CHR ''*'' \<and> wildcard ps [])"
| "wildcard (p # ps) (c # cs) =
     (if p = CHR ''*'' then wildcard ps (c # cs) \<or> wildcard (p # ps) cs
      else p = c \<and> wildcard ps cs)"

definition leading_dot :: "string \<Rightarrow> bool" where
  "leading_dot s = prefix ''.'' s"

definition segment_match :: "string \<Rightarrow> string \<Rightarrow> bool" where
  "segment_match p s = ((if leading_dot s then leading_dot p else True) \<and> wildcard p s)"

fun match_segs :: "string list \<Rightarrow> string list \<Rightarrow> bool" where
  "match_segs [] ss = (ss = [])"
| "match_segs (p # ps) [] = (p = ''**'' \<and> match_segs ps [])"
| "match_segs (p # ps) (s # ss) =
     (if p = ''**'' then match_segs ps (s # ss) \<or> (if leading_dot s then False else match_segs (p # ps) ss)
      else segment_match p s \<and> match_segs ps ss)"

definition glob_match :: "string \<Rightarrow> string \<Rightarrow> bool" where
  "glob_match pat path = match_segs (split_on CHR ''/'' pat) (split_on CHR ''/'' path)"

definition is_negative :: "string \<Rightarrow> bool" where
  "is_negative pat = prefix ''!'' pat"

text \<open>
  The filter that a list of patterns defines on the paths of the files found: a path
  stays when a pattern without \<open>!\<close> matches it and no pattern with \<open>!\<close> does. (In the
  pattern lists of the scripts the patterns with \<open>!\<close> come last.) What \<open>globby\<close> does
  before and after it (patterns that name a directory, the walk, the order of the
  result) follows with the file system.
\<close>

definition globby :: "string list \<Rightarrow> string list \<Rightarrow> string list" where
  "globby patterns paths =
     filter (\<lambda>p. list_ex (\<lambda>pat. glob_match pat p) (filter (\<lambda>pat. \<not> is_negative pat) patterns)
                \<and> \<not> list_ex (\<lambda>pat. glob_match (drop 1 pat) p) (filter is_negative patterns))
       paths"

section \<open>The sitemap and robots builder (the script with \<open>SITE_URL\<close>)\<close>

text \<open>The environment of the process: \<open>process.env.SITE_URL\<close> and \<open>process.env.NODE_ENV\<close>.\<close>

record env =
  env_SITE_URL :: "string option"
  env_NODE_ENV :: "string option"

text \<open>
  \<open>const SITE_URL = process.env.SITE_URL || 'https://www.gringo787.com'\<close>: an unset
  variable is \<open>undefined\<close>, and \<open>||\<close> takes the fallback for \<open>undefined\<close> and for the
  empty string.
\<close>

definition SITE_URL :: "env \<Rightarrow> string" where
  "SITE_URL e =
     (case env_SITE_URL e of
        None \<Rightarrow> ''https://www.gringo787.com''
      | Some s \<Rightarrow> if s = [] then ''https://www.gringo787.com'' else s)"

definition GLOBS :: "string list" where
  "GLOBS = [''public/**/*.html'', ''!public/404.html'', ''!public/**/thanks/index.html'']"

text \<open>
  \<open>const normalized = url.endsWith('/index.html') ? url.replace('/index.html', '/') : url\<close>
\<close>

definition normalized :: "string \<Rightarrow> string" where
  "normalized url =
     (if endsWith url ''/index.html'' then replace_first ''/index.html'' ''/'' url else url)"

text \<open>
  The priority is a JavaScript number written as a decimal literal; it is modelled as
  the rational number the literal denotes.
\<close>

definition priority :: "string \<Rightarrow> rat" where
  "priority n =
     (if n = ''/'' then 1.0
      else if startsWith n ''/services'' \<or> startsWith n ''/es/servicios'' then 0.8
      else if startsWith n ''/contact'' \<or> startsWith n ''/es/contacto'' then 0.9
      else 0.7)"

text \<open>An item written to the sitemap stream: \<open>{ url, changefreq, priority }\<close>.\<close>

record link =
  url :: string
  changefreq :: "string option"
  link_priority :: "rat option"

definition make_link :: "string \<Rightarrow> link" where
  "make_link u =
     \<lparr>url = normalized u, changefreq = Some ''weekly'', link_priority = Some (priority (normalized u))\<rparr>"

definition links :: "string list \<Rightarrow> link list" where
  "links files = map make_link (map strip_public files)"

section \<open>The file system\<close>

text \<open>
  The scripts read and write through Node's \<open>fs\<close> module. The file system is a record,
  with paths relative to the working directory: the directories; the files that can
  be read, with their contents; the files that exist but whose reading is denied
  (\<open>sealed\<close>; they are not among the former); the directories whose listing is denied
  (\<open>unreadable\<close>); the paths where creating or writing is denied (\<open>readonly\<close>); and the
  journal of the changes made so far, so that "performs no write" can be told from
  "writes the same bytes". The order of these lists means nothing to the scripts: the
  order in which a walk delivers the files is given to each run (see \<open>globby_fs\<close>).
  Permission to search a directory is not modelled, nor a file that may be written
  but not read: a file that a script has written can be read.
\<close>

datatype errno = ENOENT | EACCES | EISDIR | EEXIST | ENOTDIR

datatype effect = Write string string | Mkdir string

record fs =
  fs_dirs :: "string list"
  fs_files :: "(string \<times> string) list"
  sealed :: "string list"
  unreadable :: "string list"
  readonly :: "string list"
  journal :: "effect list"

text \<open>\<open>path.dirname\<close>: the path up to its last slash, \<open>.\<close> (the working directory) when it has none.\<close>

definition dirname :: "string \<Rightarrow> string" where
  "dirname p =
     (if CHR ''/'' \<in> set p then rev (drop 1 (dropWhile (\<lambda>c. c \<noteq> CHR ''/'') (rev p))) else ''.'')"

definition dir_exists :: "fs \<Rightarrow> string \<Rightarrow> bool" where
  "dir_exists s d = (d = ''.'' \<or> d \<in> set (fs_dirs s))"

definition file_exists :: "fs \<Rightarrow> string \<Rightarrow> bool" where
  "file_exists s p = (p \<in> set (map fst (fs_files s)) \<or> p \<in> set (sealed s))"

text \<open>
  \<open>fs.existsSync(p)\<close> is true for a file and for a directory; a path with a trailing
  slash exists only as a directory.
\<close>

definition existsSync :: "fs \<Rightarrow> string \<Rightarrow> bool" where
  "existsSync s p =
     (if suffix ''/'' p then dir_exists s (butlast p) else dir_exists s p \<or> file_exists s p)"

text \<open>
  \<open>fs.readFileSync(p, 'utf8')\<close>: the content of the file; it raises when the reading
  of the file is denied, when \<open>p\<close> is a directory, and when nothing exists at \<open>p\<close>.
\<close>

definition readFileSync :: "fs \<Rightarrow> string \<Rightarrow> errno + string" where
  "readFileSync s p =
     (case map_of (fs_files s) p of
        Some content \<Rightarrow> Inr content
      | None \<Rightarrow>
          if p \<in> set (sealed s) then Inl EACCES
          else if dir_exists s p then Inl EISDIR
          else Inl ENOENT)"

text \<open>
  \<open>fs.writeFileSync(p, content)\<close> creates or replaces the file; it raises when the
  directory of \<open>p\<close> does not exist, when \<open>p\<close> is a directory, or when the write is
  denied. A write stream on \<open>p\<close> that finishes has the same effect.
\<close>

definition writeFileSync :: "fs \<Rightarrow> string \<Rightarrow> string \<Rightarrow> errno + fs" where
  "writeFileSync s p content =
     (if \<not> dir_exists s (dirname p) then Inl ENOENT
      else if dir_exists s p then Inl EISDIR
      else if p \<in> set (readonly s) then Inl EACCES
      else Inr (s\<lparr>fs_files := AList.update p content (fs_files s),
                  journal := journal s @ [Write p content]\<rparr>))"

definition mkdirSync :: "fs \<Rightarrow> string \<Rightarrow> errno + fs" where
  "mkdirSync s d =
     (if existsSync s d then Inl EEXIST
      else if \<not> dir_exists s (dirname d) then Inl ENOENT
      else if d \<in> set (readonly s) then Inl EACCES
      else Inr (s\<lparr>fs_dirs := fs_dirs s @ [d], journal := journal s @ [Mkdir d]\<rparr>))"

text \<open>
  The directory walk of \<open>globby\<close> below the directory its patterns start with: the
  files that exist there, whether or not they can be read (the walk opens no file);
  no file when that directory does not exist (the package swallows \<open>ENOENT\<close>); an
  error when the listing of it or of a directory below it is denied. The list stands
  for the set of files found: the order of delivery is applied in \<open>globby_fs\<close>.
\<close>

definition below :: "string \<Rightarrow> string \<Rightarrow> bool" where
  "below base p = prefix (base @ ''/'') p"

definition walk :: "fs \<Rightarrow> string \<Rightarrow> errno + string list" where
  "walk s base =
     (if \<not> dir_exists s base then Inr []
      else if list_ex (\<lambda>d. (d = base \<or> below base d) \<and> d \<in> set (unreadable s)) (fs_dirs s)
        then Inl EACCES
      else Inr (filter (below base) (map fst (fs_files s) @ sealed s)))"

text \<open>
  Before it walks, \<open>globby\<close> expands every pattern that names an existing directory,
  with or without \<open>!\<close>, to the pattern for everything below it (the \<open>expandDirectories\<close>
  option, on by default): \<open>public/404.html\<close> stands for \<open>public/404.html/**\<close> when it is a
  directory.
\<close>

definition expandDirectories :: "fs \<Rightarrow> string list \<Rightarrow> string list" where
  "expandDirectories s patterns =
     map (\<lambda>pat. if dir_exists s (if is_negative pat then drop 1 pat else pat) then pat @ ''/**''
                else pat)
       patterns"

text \<open>
  The files that \<open>globby(patterns)\<close> finds, before they are delivered.
\<close>

definition matches :: "fs \<Rightarrow> string list \<Rightarrow> errno + string list" where
  "matches s patterns =
     (case walk s ''public'' of
        Inl e \<Rightarrow> Inl e
      | Inr paths \<Rightarrow> Inr (globby (expandDirectories s patterns) paths))"

text \<open>
  \<open>await globby(patterns)\<close>. The walk is asynchronous: the order in which it delivers
  the files it finds is not fixed by the tree, and it may differ between two runs over
  the same tree. The scripts take the list as it comes; none of them sorts it. A run
  is therefore given the order of delivery: \<open>order found\<close> is the list \<open>found\<close> in the
  order in which this run delivers it, a rearrangement of \<open>found\<close>
  (\<^term>\<open>mset (order found) = mset found\<close>).
\<close>

definition globby_fs :: "(string list \<Rightarrow> string list) \<Rightarrow> fs \<Rightarrow> string list \<Rightarrow> errno + string list" where
  "globby_fs order s patterns =
     (case matches s patterns of
        Inl e \<Rightarrow> Inl e
      | Inr found \<Rightarrow> Inr (order found))"

section \<open>The sitemap stream\<close>

text \<open>
  \<open>SitemapStream\<close> belongs to the \<open>sitemap\<close> package, not to this repository. Before
  the stream serialises an item it resolves the item's \<open>url\<close> against its \<open>hostname\<close>
  (\<open>new URL(url, hostname)\<close>): for a \<open>url\<close> that starts with one slash the result is the
  scheme and the authority of \<open>hostname\<close> followed by \<open>url\<close>; a trailing slash or a path
  of \<open>hostname\<close> is dropped. This is modelled for a \<open>hostname\<close> whose authority is a
  lower-case host name, with or without a port, and a \<open>url\<close> of characters that a URL
  does not escape and without dot segments.
\<close>

definition site_origin :: "string \<Rightarrow> string" where
  "site_origin h =
     (let scheme = takeWhile (\<lambda>c. c \<noteq> CHR '':'') h;
          rest = drop (length scheme) h
      in if prefix ''://'' rest
         then scheme @ ''://'' @ takeWhile (\<lambda>c. c \<noteq> CHR ''/'') (drop 3 rest)
         else h)"

definition normalizeURL :: "string \<Rightarrow> link \<Rightarrow> link" where
  "normalizeURL h l = l\<lparr>url := site_origin h @ url l\<rparr>"

definition stream_items :: "string \<Rightarrow> link list \<Rightarrow> link list" where
  "stream_items h items = map (normalizeURL h) items"

text \<open>
  The serialiser is a parameter of the model: a function from the resolved items to
  the document, or \<open>None\<close> when the stream raises instead of finishing (as it does for
  a \<open>hostname\<close> that is no URL).
\<close>

type_synonym renderer = "link list \<Rightarrow> string option"

section \<open>The builder's run\<close>

definition sitemapPath :: string where
  "sitemapPath = ''public/sitemap.xml''"

definition robotsPath :: string where
  "robotsPath = ''public/robots.txt''"

text \<open>
  \<open>const desired = `User-agent: *\nAllow: /\nSitemap: ${SITE_URL}/sitemap.xml\n`\<close>
\<close>

definition desired :: "env \<Rightarrow> string" where
  "desired e = ''User-agent: *\<newline>Allow: /\<newline>Sitemap: '' @ SITE_URL e @ ''/sitemap.xml\<newline>''"

text \<open>
  \<open>const current = existsSync(robotsPath) ? readFileSync(robotsPath, 'utf8') : ''\<close>
\<close>

definition current :: "fs \<Rightarrow> errno + string" where
  "current s = (if existsSync s robotsPath then readFileSync s robotsPath else Inr [])"

text \<open>The handler of the write stream's \<open>finish\<close> event.\<close>

definition on_finish :: "env \<Rightarrow> fs \<Rightarrow> errno + fs" where
  "on_finish e s =
     (case current s of
        Inl err \<Rightarrow> Inl err
      | Inr cur \<Rightarrow>
          if trim cur \<noteq> trim (desired e) then writeFileSync s robotsPath (desired e)
          else Inr s)"

text \<open>
  One run of the builder, with the order in which its walk delivers the pages.
  \<open>Inl\<close>: the process dies with an uncaught error (the model then says nothing about
  the files it leaves); \<open>Inr\<close>: the stream finished and the \<open>finish\<close> handler returned.
\<close>

datatype failure = FsError errno | StreamError

definition build :: "(string list \<Rightarrow> string list) \<Rightarrow> renderer \<Rightarrow> env \<Rightarrow> fs \<Rightarrow> failure + fs" where
  "build order render e s =
     (case globby_fs order s GLOBS of
        Inl err \<Rightarrow> Inl (FsError err)
      | Inr files \<Rightarrow>
          (case render (stream_items (SITE_URL e) (links files)) of
             None \<Rightarrow> Inl StreamError
           | Some xml \<Rightarrow>
               (case writeFileSync s sitemapPath xml of
                  Inl err \<Rightarrow> Inl (FsError err)
                | Inr s1 \<Rightarrow>
                    (case on_finish e s1 of
                       Inl err \<Rightarrow> Inl (FsError err)
                     | Inr s2 \<Rightarrow> Inr s2))))"

section \<open>\<open>scripts/seo.js\<close> and \<open>scripts/robots.js\<close> (the scripts with \<open>NODE_ENV\<close>)\<close>

definition isProd :: "env \<Rightarrow> bool" where
  "isProd e = (env_NODE_ENV e = Some ''production'')"

definition hostname :: "env \<Rightarrow> string" where
  "hostname e = (if isProd e then ''https://www.gringo787.com'' else ''http://localhost:5173'')"

definition seo_patterns :: "string list" where
  "seo_patterns = [''public/**/*.html'', ''!public/404.html'']"

definition urls :: "string list \<Rightarrow> string list" where
  "urls pages = map (\<lambda>page. backslashes_to_slashes (strip_index_html (strip_public page))) pages"

definition bare_item :: "string \<Rightarrow> link" where
  "bare_item u = \<lparr>url = u, changefreq = None, link_priority = None\<rparr>"

text \<open>
  The run of \<open>scripts/seo.js\<close>, with the order in which its walk delivers the pages:
  the exit code and the file system it leaves. Every error ends in the \<open>catch\<close>
  handler, which calls \<open>process.exit(1)\<close>.
\<close>

definition seo_js :: "(string list \<Rightarrow> string list) \<Rightarrow> renderer \<Rightarrow> env \<Rightarrow> fs \<Rightarrow> nat \<times> fs" where
  "seo_js order render e s =
     (case globby_fs order s seo_patterns of
        Inl err \<Rightarrow> (1, s)
      | Inr pages \<Rightarrow>
          (case render (stream_items (hostname e) (map bare_item (urls pages))) of
             None \<Rightarrow> (1, s)
           | Some xml \<Rightarrow>
               (case writeFileSync s sitemapPath xml of
                  Inl err \<Rightarrow> (1, s)
                | Inr s1 \<Rightarrow> (0, s1))))"

definition siteUrl :: "env \<Rightarrow> string" where
  "siteUrl e = (if isProd e then ''https://www.gringo787.com'' else ''http://localhost:5173'')"

definition robotsContent :: "env \<Rightarrow> string" where
  "robotsContent e =
     ''User-agent: *\<newline>Allow: /\<newline>\<newline>Sitemap: '' @ siteUrl e @ ''/sitemap.xml\<newline>''"

definition publicDir :: string where
  "publicDir = ''public''"

text \<open>
  The run of \<open>scripts/robots.js\<close>. It has no handler: an error of \<open>mkdirSync\<close> or
  \<open>writeFileSync\<close> is uncaught and ends the process with exit code 1.
\<close>

definition robots_js :: "env \<Rightarrow> fs \<Rightarrow> nat \<times> fs" where
  "robots_js e s =
     (case (if \<not> existsSync s publicDir then mkdirSync s publicDir else Inr s) of
        Inl err \<Rightarrow> (1, s)
      | Inr s1 \<Rightarrow>
          (case writeFileSync s1 (publicDir @ ''/robots.txt'') (robotsContent e) of
             Inl err \<Rightarrow> (1, s1)
           | Inr s2 \<Rightarrow> (0, s2)))"

section \<open>\<open>scripts/validate-build.js\<close>\<close>

text \<open>
  The validator reads \<open>dist\<close>. Two functions it calls are parameters of the model:
  \<open>join\<close> is Node's \<open>path.join\<close>, and \<open>refs\<close> is the query over the parsed page (the
  \<open>href\<close> of every \<open>link[rel='stylesheet']\<close>, then the \<open>src\<close> of every \<open>script[src]\<close>;
  \<open>None\<close> is \<open>null\<close>, an element without the attribute).
\<close>

definition distDir :: string where
  "distDir = ''dist''"

definition basename :: "string \<Rightarrow> string" where
  "basename p = rev (takeWhile (\<lambda>c. c \<noteq> CHR ''/'') (rev p))"

text \<open>
  \<open>fs.readdirSync(d, { withFileTypes: true })\<close>, restricted to the entries for which
  \<open>isFile()\<close> holds: the names of the files directly in \<open>d\<close>, whether or not they can
  be read. It raises when \<open>d\<close> is not a directory, and when the listing of \<open>d\<close> is
  denied.
\<close>

definition readdir_files :: "fs \<Rightarrow> string \<Rightarrow> errno + string list" where
  "readdir_files s d =
     (if dir_exists s d then
        (if d \<in> set (unreadable s) then Inl EACCES
         else Inr (map basename (filter (\<lambda>p. dirname p = d) (map fst (fs_files s) @ sealed s))))
      else if file_exists s d then Inl ENOTDIR
      else Inl ENOENT)"

definition htmlFiles :: "string list \<Rightarrow> string list" where
  "htmlFiles names = map (\<lambda>name. distDir @ ''/'' @ name) (filter (\<lambda>name. endsWith name ''.html'') names)"

text \<open>\<open>link.split("?")[0]\<close>\<close>

definition cleanLink :: "string \<Rightarrow> string" where
  "cleanLink link = (case split_on CHR ''?'' link of [] \<Rightarrow> [] | first # rest \<Rightarrow> first)"

text \<open>\<open>cleanLink.replace(/^\//, "")\<close>\<close>

definition strip_leading_slash :: "string \<Rightarrow> string" where
  "strip_leading_slash x = (if prefix ''/'' x then drop 1 x else x)"

definition assetPath :: "(string \<Rightarrow> string \<Rightarrow> string) \<Rightarrow> string \<Rightarrow> string" where
  "assetPath join link = join distDir (strip_leading_slash (cleanLink link))"

text \<open>The inner loop: the links of one page that are missing, as \<open>{ html, asset }\<close>.\<close>

fun check_links ::
  "(string \<Rightarrow> string \<Rightarrow> string) \<Rightarrow> fs \<Rightarrow> string \<Rightarrow> string option list \<Rightarrow> (string \<times> string) list" where
  "check_links join s html [] = []"
| "check_links join s html (None # ls) = check_links join s html ls"
| "check_links join s html (Some link # ls) =
     (if link = [] then check_links join s html ls
      else if \<not> existsSync s (assetPath join link) then (html, link) # check_links join s html ls
      else check_links join s html ls)"

text \<open>The outer loop; a page whose reading is denied raises.\<close>

fun missingAssets ::
  "(string \<Rightarrow> string \<Rightarrow> string) \<Rightarrow> (string \<Rightarrow> string option list) \<Rightarrow> fs \<Rightarrow> string list
     \<Rightarrow> errno + (string \<times> string) list" where
  "missingAssets join refs s [] = Inr []"
| "missingAssets join refs s (file # others) =
     (case readFileSync s file of
        Inl err \<Rightarrow> Inl err
      | Inr html \<Rightarrow>
          (case missingAssets join refs s others of
             Inl err \<Rightarrow> Inl err
           | Inr found \<Rightarrow> Inr (check_links join s (basename file) (refs html) @ found)))"

text \<open>
  The run of the validator: the exit code and the file system it leaves. An uncaught
  error ends the process with exit code 1.
\<close>

definition validate_build ::
  "(string \<Rightarrow> string \<Rightarrow> string) \<Rightarrow> (string \<Rightarrow> string option list) \<Rightarrow> fs \<Rightarrow> nat \<times> fs" where
  "validate_build join refs s =
     (if \<not> existsSync s distDir then (1, s)
      else (case readdir_files s distDir of
              Inl err \<Rightarrow> (1, s)
            | Inr names \<Rightarrow>
                (case missingAssets join refs s (htmlFiles names) of
                   Inl err \<Rightarrow> (1, s)
                 | Inr found \<Rightarrow> if found \<noteq> [] then (1, s) else (0, s))))"

section \<open>What the specification says, for comparison\<close>

text \<open>
  The priority table in the order the specification lists it (contact before
  services), first match wins.
\<close>

definition priority_spec :: "string \<Rightarrow> rat" where
  "priority_spec p =
     (if p = ''/'' then 1.0
      else if startsWith p ''/contact'' \<or> startsWith p ''/es/contacto'' then 0.9
      else if startsWith p ''/services'' \<or> startsWith p ''/es/servicios'' then 0.8
      else 0.7)"

text \<open>The absolute URL of an entry: \<open>origin + normalizedPath\<close>.\<close>

definition absolute_url :: "string \<Rightarrow> string \<Rightarrow> string" where
  "absolute_url origin path = origin @ path"







text \<open>
  The excluded pages: the custom not-found page, and a thank-you page
  \<open>thanks/index.html\<close> at any depth below the output root.
\<close>

definition is_not_found_page :: "string \<Rightarrow> bool" where
  "is_not_found_page p = (p = ''public/404.html'')"

definition is_thanks_page :: "string \<Rightarrow> bool" where
  "is_thanks_page p = (prefix ''public/'' p \<and> suffix ''/thanks/index.html'' p)"

text \<open>
  The input HTML files: what the recursive match over the output root lists.
\<close>

definition html_files :: "string list \<Rightarrow> string list" where
  "html_files paths = filter (glob_match ''public/**/*.html'') paths"

text \<open>A top-level HTML file of \<open>dist\<close>.\<close>

definition top_level_html :: "fs \<Rightarrow> string \<Rightarrow> bool" where
  "top_level_html s p = (file_exists s p \<and> dirname p = distDir \<and> endsWith (basename p) ''.html'')"

text \<open>Joining the pieces of a split again (used to reason about \<open>split\<close>).\<close>

fun join_with :: "char \<Rightarrow> string list \<Rightarrow> string" where
  "join_with c [] = []"
| "join_with c [x] = x"
| "join_with c (x # y # zs) = x @ c # join_with c (y # zs)"

section \<open>Rendering\<close>

text \<open>
  The \<open>sitemap\<close> package writes a priority with \<open>toFixed(1)\<close>: the decimal numeral with
  one digit after the point that is nearest to the number, the larger one on a tie.
\<close>

definition digit :: "nat \<Rightarrow> char" where
  "digit n = char_of (48 + n)"

fun decimal :: "nat \<Rightarrow> string" where
  "decimal n = (if n < 10 then [digit n] else decimal (n div 10) @ [digit (n mod 10)])"

definition toFixed1 :: "rat \<Rightarrow> string" where
  "toFixed1 x =
     (let n = nat \<lfloor>\<bar>x\<bar> * 10 + 1 / 2\<rfloor>
      in (if x < 0 then ''-'' else []) @ decimal (n div 10) @ ''.'' @ [digit (n mod 10)])"

text \<open>
  A serialiser in the style of the package, for running the scripts on examples: it
  raises on an empty stream, and writes one \<open>url\<close> element per resolved item.
\<close>

definition url_element :: "link \<Rightarrow> string" where
  "url_element l =
     ''<url><loc>'' @ url l @ ''</loc>''
     @ (case changefreq l of None \<Rightarrow> [] | Some f \<Rightarrow> ''<changefreq>'' @ f @ ''</changefreq>'')
     @ (case link_priority l of None \<Rightarrow> [] | Some p \<Rightarrow> ''<priority>'' @ toFixed1 p @ ''</priority>'')
     @ ''</url>''"

definition sitemap_xml :: renderer where
  "sitemap_xml items =
     (if items = [] then None
      else Some (''<urlset>'' @ concat (map url_element items) @ ''</urlset>''))"

text \<open>\<open>path.join\<close> on a directory and a relative path of plain segments.\<close>

definition plain_join :: "string \<Rightarrow> string \<Rightarrow> string" where
  "plain_join d r = (if r = [] then d else d @ ''/'' @ r)"

section \<open>Examples\<close>

text \<open>
  The scenario of the specification: the origin \<open>https://www.example.com\<close> and an output
  root with five pages and no robots file yet.
\<close>

definition example_env :: env where
  "example_env = \<lparr>env_SITE_URL = Some ''https://www.example.com'', env_NODE_ENV = None\<rparr>"

definition example_site :: fs where
  "example_site =
     \<lparr>fs_dirs = [''public'', ''public/services'', ''public/contact'', ''public/thanks''],
      fs_files = [(''public/index.html'', ''home''),
                  (''public/services/index.html'', ''services''),
                  (''public/contact/index.html'', ''contact''),
                  (''public/404.html'', ''not found''),
                  (''public/thanks/index.html'', ''thanks'')],
      sealed = [], unreadable = [], readonly = [], journal = []\<rparr>"

definition with_robots :: "string \<Rightarrow> fs \<Rightarrow> fs" where
  "with_robots content s = s\<lparr>fs_files := fs_files s @ [(robotsPath, content)]\<rparr>"

definition empty_fs :: fs where
  "empty_fs =
     \<lparr>fs_dirs = [], fs_files = [], sealed = [], unreadable = [], readonly = [], journal = []\<rparr>"

definition example_pages :: "string list" where
  "example_pages = [''public/index.html'', ''public/services/index.html'', ''public/contact/index.html'']"

definition example_xml :: string where
  "example_xml = ''<urlset><url><loc>https://www.example.com/</loc><changefreq>weekly</changefreq><priority>1.0</priority></url><url><loc>https://www.example.com/services/</loc><changefreq>weekly</changefreq><priority>0.8</priority></url><url><loc>https://www.example.com/contact/</loc><changefreq>weekly</changefreq><priority>0.9</priority></url></urlset>''"

text \<open>
  Two orders of delivery: the files as the record lists them, and the other way
  round.
\<close>

definition stored_order :: "string list \<Rightarrow> string list" where
  "stored_order found = found"

definition reverse_order :: "string list \<Rightarrow> string list" where
  "reverse_order found = rev found"

text \<open>
  The first run of the builder on the scenario, and a second run on what it left, whose
  walk delivers the pages the other way round, with the document it writes; a robots
  file that differs from the desired directive in white space only, and one with a
  stale origin; an output root whose outputs may not be written, and one whose
  listing is denied.
\<close>

definition first_run :: fs where
  "first_run = projr (build stored_order sitemap_xml example_env example_site)"

definition second_run :: fs where
  "second_run = projr (build reverse_order sitemap_xml example_env first_run)"

definition reversed_xml :: string where
  "reversed_xml = ''<urlset><url><loc>https://www.example.com/contact/</loc><changefreq>weekly</changefreq><priority>0.9</priority></url><url><loc>https://www.example.com/services/</loc><changefreq>weekly</changefreq><priority>0.8</priority></url><url><loc>https://www.example.com/</loc><changefreq>weekly</changefreq><priority>1.0</priority></url></urlset>''"

definition kept_robots :: string where
  "kept_robots = ''  User-agent: *\<newline>Allow: /\<newline>Sitemap: https://www.example.com/sitemap.xml''"

definition stale_robots :: string where
  "stale_robots = ''User-agent: *\<newline>Allow: /\<newline>Sitemap: https://old.example.org/sitemap.xml\<newline>''"

definition locked_site :: fs where
  "locked_site = example_site\<lparr>readonly := [''public/sitemap.xml'', ''public/robots.txt'']\<rparr>"

definition hidden_site :: fs where
  "hidden_site = example_site\<lparr>unreadable := [''public'']\<rparr>"

text \<open>
  Build outputs for the validator: a complete one, one with a script missing, one
  whose page names a directory, one whose listing is denied and one whose page may
  not be read; with the references found in their pages.
\<close>

definition page_refs :: "string \<Rightarrow> string option list" where
  "page_refs html =
     (case map_of [(''home'', [Some ''/styles.css?v=3'', None, Some [], Some ''js/app.js'']),
                   (''gallery'', [Some ''/assets''])] html of
        Some found \<Rightarrow> found
      | None \<Rightarrow> [])"

definition dist_site :: fs where
  "dist_site =
     \<lparr>fs_dirs = [''dist'', ''dist/js'', ''dist/assets''],
      fs_files = [(''dist/index.html'', ''home''), (''dist/styles.css'', ''body {}''),
                  (''dist/js/app.js'', ''init()''), (''dist/js/inner.html'', ''gallery'')],
      sealed = [], unreadable = [], readonly = [], journal = []\<rparr>"

definition broken_dist :: fs where
  "broken_dist = dist_site\<lparr>fs_files := [(''dist/index.html'', ''home''), (''dist/styles.css'', ''body {}'')]\<rparr>"

definition gallery_dist :: fs where
  "gallery_dist = dist_site\<lparr>fs_files := [(''dist/gallery.html'', ''gallery'')]\<rparr>"

definition unlisted_dist :: fs where
  "unlisted_dist = dist_site\<lparr>unreadable := [''dist'']\<rparr>"

definition sealed_dist :: fs where
  "sealed_dist =
     dist_site\<lparr>fs_files := [(''dist/styles.css'', ''body {}''), (''dist/js/app.js'', ''init()'')],
                sealed := [''dist/index.html'']\<rparr>"

section \<open>Strings: auxiliary facts\<close>

lemma prefix_butlast:
  assumes "prefix xs ys" "length xs < length ys"
  shows "prefix xs (butlast ys)"
proof -
  from assms(1) obtain zs where ys: "ys = xs @ zs" by (auto simp: prefix_def)
  with assms(2) have "zs \<noteq> []" by auto
  then have "butlast ys = xs @ butlast zs" using ys by (simp add: butlast_append)
  then show ?thesis by simp
qed

lemma replace_first_suffix:
  "\<not> sublist pat (butlast (pre @ pat)) \<Longrightarrow> pat \<noteq> [] \<Longrightarrow> replace_first pat rep (pre @ pat) = pre @ rep"
proof (induction pre)
  case Nil
  then show ?case by (cases pat) auto
next
  case (Cons c pre)
  have ne: "pre @ pat \<noteq> []" using Cons.prems by simp
  have np: "\<not> prefix pat (c # pre @ pat)"
  proof
    assume "prefix pat (c # pre @ pat)"
    then have "prefix pat (butlast (c # pre @ pat))"
      by (rule prefix_butlast) simp
    then have "sublist pat (butlast ((c # pre) @ pat))"
      by (auto intro: prefix_imp_sublist)
    then show False using Cons.prems(1) by simp
  qed
  have "\<not> sublist pat (butlast (pre @ pat))"
    using Cons.prems(1) ne by (auto simp: sublist_Cons_right)
  then show ?case using Cons.IH Cons.prems np by simp
qed

lemma suffix_same: "suffix t (p @ t)"
  by (simp add: suffix_def)

section \<open>URL derivation\<close>

lemma normalized_collapse:
  assumes "u = pre @ ''/index.html''" "\<not> sublist ''/index.html'' (butlast u)"
  shows "normalized u = pre @ ''/''"
  using assms replace_first_suffix [of "''/index.html''" pre "''/''"]
  by (simp add: normalized_def endsWith_def suffix_same)

lemma normalized_other: "\<not> endsWith u ''/index.html'' \<Longrightarrow> normalized u = u"
  by (simp add: normalized_def)

lemma strip_index_html_suffix: "strip_index_html (pre @ ''index.html'') = pre"
  by (simp add: strip_index_html_def suffix_same)

lemma strip_index_html_other: "\<not> endsWith u ''index.html'' \<Longrightarrow> strip_index_html u = u"
  by (simp add: strip_index_html_def endsWith_def)

lemma strip_public_prefixed: "strip_public (''public'' @ u) = u"
  by (simp add: strip_public_def)

lemma url_of_link: "map url (links [''public'' @ u]) = [normalized u]"
  by (simp add: links_def make_link_def strip_public_prefixed del: append.simps)

lemma not_ends_after_collapse:
  assumes "\<not> sublist ''/index.html'' (butlast u)"
  shows "\<not> endsWith (normalized u) ''/index.html''"
proof (cases "endsWith u ''/index.html''")
  case True
  then obtain pre where u: "u = pre @ ''/index.html''"
    by (auto simp: endsWith_def suffix_def)
  then have "normalized u = pre @ ''/''" using assms by (rule normalized_collapse)
  then show ?thesis by (auto simp: endsWith_def suffix_def)
next
  case False
  then show ?thesis by (simp add: normalized_other)
qed

text \<open>
  Claim C3, as the scripts have it. In the builder with \<open>SITE_URL\<close>: a path that ends in
  \<open>/index.html\<close> and contains \<open>/index.html\<close> nowhere else maps to the path with that suffix
  replaced by \<open>/\<close>; a path that does not end in \<open>/index.html\<close> is left as it is (so a URL
  may contain \<open>index.html\<close>, as \<open>/blog/myindex.html\<close> does); the URL of such paths never
  ends in \<open>/index.html\<close>; the item's \<open>url\<close> is that normalized path. In
  \<open>scripts/seo.js\<close>: a path that ends in \<open>/index.html\<close> maps to the path with that suffix
  replaced by \<open>/\<close>, a path that does not end in \<open>index.html\<close> is kept, and every
  backslash becomes a slash.
\<close>

theorem url_derivation:
  "(\<not> sublist ''/index.html'' (butlast (pre @ ''/index.html''))
      \<longrightarrow> normalized (pre @ ''/index.html'') = pre @ ''/'')
   \<and> (\<not> endsWith u ''/index.html'' \<longrightarrow> normalized u = u)
   \<and> (\<not> sublist ''/index.html'' (butlast u) \<longrightarrow> \<not> endsWith (normalized u) ''/index.html'')
   \<and> map url (links [''public'' @ u]) = [normalized u]
   \<and> urls [''public'' @ pre @ ''/index.html''] = [backslashes_to_slashes (pre @ ''/'')]
   \<and> (\<not> endsWith u ''index.html'' \<longrightarrow> urls [''public'' @ u] = [backslashes_to_slashes u])"
proof -
  have "strip_index_html ((pre @ ''/'') @ ''index.html'') = pre @ ''/''"
    by (rule strip_index_html_suffix)
  then have s: "strip_index_html (pre @ ''/index.html'') = pre @ ''/''" by simp
  have a: "urls [''public'' @ pre @ ''/index.html''] = [backslashes_to_slashes (pre @ ''/'')]"
    unfolding urls_def by (simp add: strip_public_prefixed s del: append.simps)
  have b: "\<not> endsWith u ''index.html'' \<Longrightarrow> urls [''public'' @ u] = [backslashes_to_slashes u]"
    unfolding urls_def by (simp add: strip_public_prefixed strip_index_html_other del: append.simps)
  have c: "\<not> sublist ''/index.html'' (butlast (pre @ ''/index.html''))
      \<Longrightarrow> normalized (pre @ ''/index.html'') = pre @ ''/''"
    by (rule normalized_collapse) auto
  show ?thesis
    using a b c normalized_other not_ends_after_collapse url_of_link by blast
qed

theorem url_derivation_witness:
  "normalized ''/services/index.html'' = ''/services/''
   \<and> normalized ''/404.html'' = ''/404.html''
   \<and> \<not> endsWith (normalized ''/services/index.html'') ''/index.html''
   \<and> urls [''public/services/index.html''] = [''/services/'']
   \<and> urls [''public/404.html''] = [''/404.html'']"
proof -
  have h2: "\<not> sublist ''/index.html'' (butlast (''/services'' @ ''/index.html''))" by code_simp
  have h2': "\<not> sublist ''/index.html'' (butlast ''/services/index.html'')" by code_simp
  have h3: "\<not> endsWith ''/404.html'' ''/index.html''" by code_simp
  have h4: "\<not> endsWith ''/404.html'' ''index.html''" by code_simp
  have b1: "backslashes_to_slashes ''/services/'' = ''/services/''" by code_simp
  have b2: "backslashes_to_slashes ''/404.html'' = ''/404.html''" by code_simp
  note inst1 = url_derivation [where u = "''/services/index.html''" and pre = "''/services''"]
  note inst2 = url_derivation [where u = "''/404.html''" and pre = "''/services''"]
  have c1: "normalized (''/services'' @ ''/index.html'') = ''/services'' @ ''/''"
    using inst1 h2 by blast
  have c3: "\<not> endsWith (normalized ''/services/index.html'') ''/index.html''"
    using inst1 h2' by blast
  have c2: "normalized ''/404.html'' = ''/404.html''"
    using inst2 h3 by blast
  have c4: "urls [''public'' @ ''/services'' @ ''/index.html''] = [backslashes_to_slashes (''/services'' @ ''/'')]"
    using inst2 by blast
  have c5: "urls [''public'' @ ''/404.html''] = [backslashes_to_slashes ''/404.html'']"
    using inst2 h4 by blast
  show ?thesis using c1 c2 c3 c4 c5 b1 b2 by simp
qed

text \<open>
  The claim as stated fails: \<open>/blog/myindex.html\<close> does not end in \<open>/index.html\<close>, the
  builder leaves it as it is, and the URL contains \<open>index.html\<close>.
\<close>

theorem url_derivation_counterexample:
  "\<not> endsWith ''/blog/myindex.html'' ''/index.html''
   \<and> map url (links [''public/blog/myindex.html'']) = [''/blog/myindex.html'']
   \<and> sublist ''index.html'' ''/blog/myindex.html''"
  by code_simp

text \<open>
  Two inputs that the statement above leaves out. \<open>replace\<close> with a string pattern
  replaces the first occurrence, not the one at the end: below a directory named
  \<open>index.html\<close> the suffix stays. And the pattern \<open>/index\.html$/\<close> of \<open>scripts/seo.js\<close>
  is not tied to a slash: it also cuts the end of a file name.
\<close>

lemma replace_first_occurrence_example:
  "map url (links [''public/index.html/index.html'']) = [''//index.html'']"
  by code_simp

lemma unanchored_pattern_example:
  "urls [''public/blog/myindex.html''] = [''/blog/my'']"
  by code_simp

section \<open>Priority\<close>

text \<open>
  Claim C4: the priority is a function of the normalized path alone, and it is the
  first-match-wins table of the specification in the order listed there: 1.0 for \<open>/\<close>,
  else 0.9 for a path that starts with \<open>/contact\<close> or \<open>/es/contacto\<close>, else 0.8 for one
  that starts with \<open>/services\<close> or \<open>/es/servicios\<close>, else 0.7. (The script tests the
  services prefixes first; no path has both kinds of prefix.)
\<close>

theorem priority_first_match_wins:
  "priority p = priority_spec p \<and> link_priority (make_link u) = Some (priority_spec (normalized u))"
  by (auto simp: priority_def priority_spec_def startsWith_def prefix_def make_link_def)

section \<open>Change frequency and priority of the entries\<close>

lemma priority_values: "priority p = 1 \<or> priority p = 0.9 \<or> priority p = 0.8 \<or> priority p = 0.7"
  by (simp add: priority_def)

lemma toFixed1_values:
  "toFixed1 1 = ''1.0''" "toFixed1 0.9 = ''0.9''" "toFixed1 0.8 = ''0.8''" "toFixed1 0.7 = ''0.7''"
  by code_simp+

lemma make_link_fields:
  "changefreq (make_link u) = Some ''weekly''"
  "link_priority (make_link u) = Some (priority (normalized u))"
  "url (make_link u) = normalized u"
  by (simp_all add: make_link_def)

lemma priority_rendered:
  "(priority p = 1 \<and> toFixed1 (priority p) = ''1.0'')
   \<or> (priority p = 0.9 \<and> toFixed1 (priority p) = ''0.9'')
   \<or> (priority p = 0.8 \<and> toFixed1 (priority p) = ''0.8'')
   \<or> (priority p = 0.7 \<and> toFixed1 (priority p) = ''0.7'')"
  using priority_values [of p] toFixed1_values by metis

lemma priority_range: "0 \<le> priority p \<and> priority p \<le> 1"
  by (simp add: priority_def)

text \<open>
  Claim C8, as the scripts have it. Every item the builder with \<open>SITE_URL\<close> writes to
  the stream carries \<open>changefreq\<close> \<open>weekly\<close> and a priority that is one of 1.0, 0.9, 0.8
  and 0.7, hence within [0, 1], and \<open>toFixed(1)\<close> renders it as \<open>1.0\<close>, \<open>0.9\<close>, \<open>0.8\<close> or
  \<open>0.7\<close>. The items of \<open>scripts/seo.js\<close> carry a \<open>url\<close> only: no \<open>changefreq\<close>, no
  priority.
\<close>

theorem entries_weekly_and_priority:
  "(\<forall>l \<in> set (links files).
       changefreq l = Some ''weekly''
       \<and> (\<exists>p. link_priority l = Some p \<and> 0 \<le> p \<and> p \<le> 1
             \<and> ((p = 1 \<and> toFixed1 p = ''1.0'') \<or> (p = 0.9 \<and> toFixed1 p = ''0.9'')
                 \<or> (p = 0.8 \<and> toFixed1 p = ''0.8'') \<or> (p = 0.7 \<and> toFixed1 p = ''0.7''))))
   \<and> (\<forall>l \<in> set (map bare_item (urls pages)). changefreq l = None \<and> link_priority l = None)"
proof -
  have a: "changefreq l = Some ''weekly''
       \<and> (\<exists>p. link_priority l = Some p \<and> 0 \<le> p \<and> p \<le> 1
             \<and> ((p = 1 \<and> toFixed1 p = ''1.0'') \<or> (p = 0.9 \<and> toFixed1 p = ''0.9'')
                 \<or> (p = 0.8 \<and> toFixed1 p = ''0.8'') \<or> (p = 0.7 \<and> toFixed1 p = ''0.7'')))"
    if "l \<in> set (links files)" for l
  proof -
    from that obtain u where l: "l = make_link u" by (auto simp: links_def)
    show ?thesis
      unfolding l make_link_fields
      using priority_rendered [of "normalized u"] priority_range [of "normalized u"] by blast
  qed
  have b: "changefreq l = None \<and> link_priority l = None"
    if "l \<in> set (map bare_item (urls pages))" for l
    using that by (auto simp: bare_item_def)
  show ?thesis using a b by blast
qed

theorem entries_weekly_and_priority_witness:
  "make_link ''/services/index.html'' \<in> set (links [''public/index.html'', ''public/services/index.html''])
   \<and> changefreq (make_link ''/services/index.html'') = Some ''weekly''
   \<and> link_priority (make_link ''/services/index.html'') = Some 0.8
   \<and> toFixed1 0.8 = ''0.8''
   \<and> bare_item ''/'' \<in> set (map bare_item (urls [''public/index.html'']))
   \<and> changefreq (bare_item ''/'') = None \<and> link_priority (bare_item ''/'') = None"
proof -
  have m1: "make_link ''/services/index.html'' \<in> set (links [''public/index.html'', ''public/services/index.html''])"
    by (simp add: links_def strip_public_def)
  have u: "urls [''public/index.html''] = [''/'']" by code_simp
  have m2: "bare_item ''/'' \<in> set (map bare_item (urls [''public/index.html'']))"
    by (simp add: u)
  have p: "link_priority (make_link ''/services/index.html'') = Some 0.8"
    by code_simp
  note inst = entries_weekly_and_priority
    [where files = "[''public/index.html'', ''public/services/index.html'']"
       and pages = "[''public/index.html'']"]
  have c1: "changefreq (make_link ''/services/index.html'') = Some ''weekly''
     \<and> (\<exists>p. link_priority (make_link ''/services/index.html'') = Some p \<and> 0 \<le> p \<and> p \<le> 1
             \<and> ((p = 1 \<and> toFixed1 p = ''1.0'') \<or> (p = 0.9 \<and> toFixed1 p = ''0.9'')
                 \<or> (p = 0.8 \<and> toFixed1 p = ''0.8'') \<or> (p = 0.7 \<and> toFixed1 p = ''0.7'')))"
    using inst m1 by blast
  have c2: "changefreq (bare_item ''/'') = None \<and> link_priority (bare_item ''/'') = None"
    using inst m2 by blast
  from c1 obtain q where q: "link_priority (make_link ''/services/index.html'') = Some q"
    and d: "(q = 1 \<and> toFixed1 q = ''1.0'') \<or> (q = 0.9 \<and> toFixed1 q = ''0.9'')
                 \<or> (q = 0.8 \<and> toFixed1 q = ''0.8'') \<or> (q = 0.7 \<and> toFixed1 q = ''0.7'')"
    by blast
  from q p have q8: "q = 0.8" by simp
  have t: "toFixed1 0.8 = ''0.8''"
    using d unfolding q8 by (elim disjE conjE) simp_all
  show ?thesis using m1 m2 p c1 c2 t by blast
qed

text \<open>
  The claim as stated fails on \<open>scripts/seo.js\<close>: the entry it emits for the home page
  has neither a change frequency nor a priority.
\<close>

theorem entries_weekly_and_priority_counterexample:
  "map bare_item (urls [''public/index.html''])
     = [\<lparr>url = ''/'', changefreq = None, link_priority = None\<rparr>]"
  by code_simp

section \<open>The file system: auxiliary facts\<close>

lemma paths_differ [simp]:
  "sitemapPath \<noteq> robotsPath" "robotsPath \<noteq> sitemapPath"
  by (simp_all add: sitemapPath_def robotsPath_def)

lemma no_trailing_slash [simp]:
  "\<not> suffix ''/'' robotsPath" "\<not> suffix ''/'' sitemapPath" "\<not> suffix ''/'' publicDir"
  "\<not> suffix ''/'' distDir"
  by (simp_all add: robotsPath_def sitemapPath_def publicDir_def distDir_def suffix_def)

lemma writeFileSync_Inr:
  "writeFileSync s p c = Inr s' \<longleftrightarrow>
     dir_exists s (dirname p) \<and> \<not> dir_exists s p \<and> p \<notin> set (readonly s)
     \<and> s' = s\<lparr>fs_files := AList.update p c (fs_files s), journal := journal s @ [Write p c]\<rparr>"
  by (auto simp: writeFileSync_def)

lemma dir_exists_frame [simp]:
  "dir_exists (s\<lparr>journal := j\<rparr>) d = dir_exists s d"
  "dir_exists (s\<lparr>fs_files := f\<rparr>) d = dir_exists s d"
  by (simp_all add: dir_exists_def)

lemma file_exists_journal [simp]: "file_exists (s\<lparr>journal := j\<rparr>) q = file_exists s q"
  by (simp add: file_exists_def)

lemma file_exists_update:
  "file_exists (s\<lparr>fs_files := AList.update p c (fs_files s)\<rparr>) q = (q = p \<or> file_exists s q)"
  by (auto simp: file_exists_def AList.update_keys)

lemma readFileSync_journal [simp]: "readFileSync (s\<lparr>journal := j\<rparr>) q = readFileSync s q"
  by (simp add: readFileSync_def)

lemma read_after_write:
  "readFileSync (s\<lparr>fs_files := AList.update p c (fs_files s)\<rparr>) q
     = (if q = p then Inr c else readFileSync s q)"
  by (simp add: readFileSync_def AList.update_conv')

lemma read_Inr: "readFileSync s p = Inr c \<longleftrightarrow> map_of (fs_files s) p = Some c"
  by (simp add: readFileSync_def split: option.splits)

lemma read_file_exists:
  assumes "readFileSync s p = Inr c"
  shows "file_exists s p"
proof -
  from assms have "map_of (fs_files s) p = Some c" by (simp add: read_Inr)
  then have "(p, c) \<in> set (fs_files s)" by (rule map_of_SomeD)
  then have "fst (p, c) \<in> fst ` set (fs_files s)" by (rule imageI)
  then show ?thesis by (simp add: file_exists_def)
qed

lemma file_exists_read:
  assumes "file_exists s p" "p \<notin> set (sealed s)"
  shows "\<exists>c. readFileSync s p = Inr c"
proof -
  from assms have "p \<in> fst ` set (fs_files s)" by (simp add: file_exists_def)
  then have "map_of (fs_files s) p \<noteq> None" by (simp add: map_of_eq_None_iff)
  then show ?thesis by (auto simp: read_Inr)
qed

lemma read_denied:
  assumes "file_exists s p" "readFileSync s p = Inl err"
  shows "err = EACCES \<and> p \<in> set (sealed s)"
proof -
  from assms(2) have n: "map_of (fs_files s) p = None"
    by (auto simp: readFileSync_def split: option.splits)
  then have "p \<notin> fst ` set (fs_files s)" by (simp add: map_of_eq_None_iff)
  with assms(1) have "p \<in> set (sealed s)" by (simp add: file_exists_def)
  with n assms(2) show ?thesis by (simp add: readFileSync_def)
qed

lemma existsSync_journal [simp]: "existsSync (s\<lparr>journal := j\<rparr>) q = existsSync s q"
  by (simp add: existsSync_def)

lemma current_journal [simp]: "current (s\<lparr>journal := j\<rparr>) = current s"
  by (simp add: current_def)

lemma current_after_sitemap:
  "current (s\<lparr>fs_files := AList.update sitemapPath c (fs_files s)\<rparr>) = current s"
  by (simp add: current_def existsSync_def file_exists_update read_after_write)

lemma build_Inr:
  "build order render e s = Inr s2 \<longleftrightarrow>
     (\<exists>files xml s1. globby_fs order s GLOBS = Inr files
        \<and> render (stream_items (SITE_URL e) (links files)) = Some xml
        \<and> writeFileSync s sitemapPath xml = Inr s1 \<and> on_finish e s1 = Inr s2)"
  by (auto simp: build_def split: sum.splits option.splits)

lemma on_finish_Inr:
  "on_finish e s = Inr s' \<longleftrightarrow>
     (\<exists>cur. current s = Inr cur
        \<and> (if trim cur \<noteq> trim (desired e) then writeFileSync s robotsPath (desired e) = Inr s'
            else s' = s))"
  by (auto simp: on_finish_def split: sum.splits)

lemma trim_desired_not_empty: "trim (desired e) \<noteq> trim []"
proof -
  have d: "desired e = CHR ''U'' # (''ser-agent: *\<newline>Allow: /\<newline>Sitemap: '' @ SITE_URL e @ ''/sitemap.xm'') @ [CHR ''l''] @ [CHR 0x0A]"
    by (simp add: desired_def)
  have "trim (desired e) = CHR ''U'' # ''ser-agent: *\<newline>Allow: /\<newline>Sitemap: '' @ SITE_URL e @ ''/sitemap.xml''"
    unfolding d trim_def by (simp add: is_space_def)
  then show ?thesis by (simp add: trim_def)
qed

section \<open>The listing: auxiliary facts\<close>

lemma globby_Nil [simp]: "globby pats [] = []"
  by (simp add: globby_def)

lemma globby_append: "globby pats (xs @ ys) = globby pats xs @ globby pats ys"
  by (simp add: globby_def)

lemma globby_no_positive:
  assumes "\<And>pat. pat \<in> set pats \<Longrightarrow> \<not> is_negative pat \<Longrightarrow> \<not> glob_match pat p"
  shows "globby pats [p] = []"
  using assms by (auto simp: globby_def list_ex_iff)

lemma expandDirectories_frame [simp]:
  "expandDirectories (s\<lparr>journal := j\<rparr>) pats = expandDirectories s pats"
  "expandDirectories (s\<lparr>fs_files := f\<rparr>) pats = expandDirectories s pats"
  by (simp_all add: expandDirectories_def)

lemma expandDirectories_none:
  assumes "\<And>pat. pat \<in> set pats \<Longrightarrow> \<not> dir_exists s (if is_negative pat then drop 1 pat else pat)"
  shows "expandDirectories s pats = pats"
  unfolding expandDirectories_def using assms by (induction pats) auto

lemma expand_positive:
  assumes "pat \<in> set (expandDirectories s pats)" "\<not> is_negative pat"
  shows "\<exists>q \<in> set pats. \<not> is_negative q \<and> (pat = q \<or> pat = q @ ''/**'')"
proof -
  from assms(1) obtain q where q: "q \<in> set pats" "pat = q \<or> pat = q @ ''/**''"
    by (auto simp: expandDirectories_def split: if_splits)
  have "\<not> is_negative q"
  proof
    assume "is_negative q"
    then have "is_negative pat" using q(2) by (auto simp: is_negative_def prefix_def)
    with assms(2) show False by simp
  qed
  with q show ?thesis by blast
qed

lemma matches_journal [simp]: "matches (s\<lparr>journal := j\<rparr>) pats = matches s pats"
  by (simp add: matches_def walk_def)

lemma globby_fs_journal [simp]: "globby_fs order (s\<lparr>journal := j\<rparr>) pats = globby_fs order s pats"
  by (simp add: globby_fs_def)

lemma matches_after_write:
  assumes "globby (expandDirectories s pats) [p] = []"
  shows "matches (s\<lparr>fs_files := AList.update p c (fs_files s)\<rparr>) pats = matches s pats"
proof -
  let ?ps = "expandDirectories s pats"
  have "globby ?ps (filter (below ''public'') (map fst (AList.update p c (fs_files s)) @ sealed s))
      = globby ?ps (filter (below ''public'') (map fst (fs_files s) @ sealed s))"
    using assms by (simp add: AList.update_keys globby_append)
  then show ?thesis
    by (simp add: matches_def walk_def)
qed

lemma globby_fs_after_write:
  assumes "globby (expandDirectories s pats) [p] = []"
  shows "globby_fs order (s\<lparr>fs_files := AList.update p c (fs_files s)\<rparr>) pats = globby_fs order s pats"
  by (simp add: globby_fs_def matches_after_write [OF assms])

lemma page_patterns:
  assumes "pat \<in> set (expandDirectories s GLOBS) \<or> pat \<in> set (expandDirectories s seo_patterns)"
    and "\<not> is_negative pat"
  shows "pat = ''public/**/*.html'' \<or> pat = ''public/**/*.html/**''"
proof -
  from assms obtain q where q: "q \<in> set GLOBS \<or> q \<in> set seo_patterns" "\<not> is_negative q"
    "pat = q \<or> pat = q @ ''/**''"
    using expand_positive by blast
  from q(1,2) have "q = ''public/**/*.html''"
    by (auto simp: GLOBS_def seo_patterns_def is_negative_def)
  with q(3) show ?thesis by auto
qed

lemma outputs_match_no_pattern:
  "\<not> glob_match ''public/**/*.html'' sitemapPath" "\<not> glob_match ''public/**/*.html/**'' sitemapPath"
  "\<not> glob_match ''public/**/*.html'' robotsPath" "\<not> glob_match ''public/**/*.html/**'' robotsPath"
  by code_simp+

lemma outputs_are_not_pages:
  "globby (expandDirectories s GLOBS) [sitemapPath] = []"
  "globby (expandDirectories s GLOBS) [robotsPath] = []"
  "globby (expandDirectories s seo_patterns) [sitemapPath] = []"
proof -
  show "globby (expandDirectories s GLOBS) [sitemapPath] = []"
    by (rule globby_no_positive) (use page_patterns outputs_match_no_pattern in blast)
  show "globby (expandDirectories s GLOBS) [robotsPath] = []"
    by (rule globby_no_positive) (use page_patterns outputs_match_no_pattern in blast)
  show "globby (expandDirectories s seo_patterns) [sitemapPath] = []"
    by (rule globby_no_positive) (use page_patterns outputs_match_no_pattern in blast)
qed

section \<open>The builder's run: auxiliary facts\<close>

lemma write_changes_journal: "writeFileSync s p c \<noteq> Inr s"
proof
  assume "writeFileSync s p c = Inr s"
  then have "s = s\<lparr>fs_files := AList.update p c (fs_files s), journal := journal s @ [Write p c]\<rparr>"
    by (simp add: writeFileSync_Inr)
  then have "journal s = journal (s\<lparr>fs_files := AList.update p c (fs_files s), journal := journal s @ [Write p c]\<rparr>)"
    by (rule arg_cong)
  then show False by simp
qed

lemma on_finish_journal:
  assumes "on_finish e s = Inr s"
  shows "on_finish e (s\<lparr>journal := j\<rparr>) = Inr (s\<lparr>journal := j\<rparr>)"
proof -
  from assms obtain cur where cur: "current s = Inr cur"
    and step: "if trim cur \<noteq> trim (desired e) then writeFileSync s robotsPath (desired e) = Inr s else s = s"
    by (auto simp: on_finish_Inr)
  from step have "trim cur = trim (desired e)"
    using write_changes_journal [of s robotsPath "desired e"] by (auto split: if_splits)
  with cur show ?thesis by (simp add: on_finish_def)
qed

lemma on_finish_settled:
  assumes "on_finish e s = Inr s'"
  shows "on_finish e s' = Inr s'"
proof -
  from assms obtain cur where cur: "current s = Inr cur"
    and step: "if trim cur \<noteq> trim (desired e) then writeFileSync s robotsPath (desired e) = Inr s' else s' = s"
    by (auto simp: on_finish_Inr)
  show ?thesis
  proof (cases "trim cur \<noteq> trim (desired e)")
    case True
    with step have s': "s' = s\<lparr>fs_files := AList.update robotsPath (desired e) (fs_files s),
        journal := journal s @ [Write robotsPath (desired e)]\<rparr>"
      by (simp add: writeFileSync_Inr)
    have "current s' = Inr (desired e)"
      unfolding s' by (simp add: current_def existsSync_def file_exists_update read_after_write)
    then show ?thesis by (simp add: on_finish_def)
  next
    case False
    with step assms show ?thesis by simp
  qed
qed

lemma on_finish_keeps:
  assumes "on_finish e s = Inr s'"
  shows "fs_dirs s' = fs_dirs s \<and> readonly s' = readonly s \<and> unreadable s' = unreadable s
    \<and> sealed s' = sealed s
    \<and> map_of (fs_files s') sitemapPath = map_of (fs_files s) sitemapPath
    \<and> matches s' GLOBS = matches s GLOBS"
proof -
  from assms obtain cur where cur: "current s = Inr cur"
    and step: "if trim cur \<noteq> trim (desired e) then writeFileSync s robotsPath (desired e) = Inr s' else s' = s"
    by (auto simp: on_finish_Inr)
  show ?thesis
  proof (cases "trim cur \<noteq> trim (desired e)")
    case True
    with step have s': "s' = s\<lparr>fs_files := AList.update robotsPath (desired e) (fs_files s),
        journal := journal s @ [Write robotsPath (desired e)]\<rparr>"
      by (simp add: writeFileSync_Inr)
    show ?thesis
      unfolding s' by (simp add: AList.update_conv' matches_after_write outputs_are_not_pages)
  next
    case False
    with step show ?thesis by simp
  qed
qed

lemma build_finishes:
  assumes "globby_fs order s GLOBS = Inr files" "render (stream_items (SITE_URL e) (links files)) = Some xml"
    and "dir_exists s publicDir" "\<not> dir_exists s sitemapPath" "\<not> dir_exists s robotsPath"
    and "sitemapPath \<notin> set (readonly s)" "robotsPath \<notin> set (readonly s)"
    and "robotsPath \<notin> set (sealed s)"
  shows "\<exists>s'. build order render e s = Inr s'"
proof -
  have d: "dirname sitemapPath = publicDir" "dirname robotsPath = publicDir" by code_simp+
  define s1 where "s1 = s\<lparr>fs_files := AList.update sitemapPath xml (fs_files s),
      journal := journal s @ [Write sitemapPath xml]\<rparr>"
  have w: "writeFileSync s sitemapPath xml = Inr s1"
    using assms by (simp add: writeFileSync_Inr d s1_def)
  have c1: "current s1 = current s"
    unfolding s1_def by (simp add: current_after_sitemap)
  have "\<exists>cur. current s = Inr cur"
  proof (cases "file_exists s robotsPath")
    case True
    then show ?thesis
      using file_exists_read [OF True assms(8)] by (auto simp: current_def existsSync_def)
  next
    case False
    then show ?thesis
      using assms(5) by (simp add: current_def existsSync_def)
  qed
  then have "\<exists>cur. current s1 = Inr cur" by (simp add: c1)
  then obtain cur where cur: "current s1 = Inr cur" by blast
  have "\<exists>s2. on_finish e s1 = Inr s2"
    using cur assms unfolding on_finish_def
    by (simp add: writeFileSync_def d s1_def)
  then show ?thesis using assms(1,2) w by (auto simp: build_Inr)
qed

lemma build_effect:
  assumes b: "build order render e s = Inr s'" and c: "current s = Inr c"
  shows "\<exists>files xml. globby_fs order s GLOBS = Inr files
           \<and> render (stream_items (SITE_URL e) (links files)) = Some xml
           \<and> readFileSync s' sitemapPath = Inr xml
           \<and> (if trim c \<noteq> trim (desired e)
                then readFileSync s' robotsPath = Inr (desired e)
                  \<and> journal s' = journal s @ [Write sitemapPath xml, Write robotsPath (desired e)]
                else readFileSync s' robotsPath = readFileSync s robotsPath
                  \<and> journal s' = journal s @ [Write sitemapPath xml])"
proof -
  from b obtain files xml sA where g: "globby_fs order s GLOBS = Inr files"
    and r: "render (stream_items (SITE_URL e) (links files)) = Some xml"
    and w: "writeFileSync s sitemapPath xml = Inr sA"
    and f: "on_finish e sA = Inr s'"
    by (auto simp: build_Inr)
  from w have sA: "sA = s\<lparr>fs_files := AList.update sitemapPath xml (fs_files s),
      journal := journal s @ [Write sitemapPath xml]\<rparr>"
    by (simp add: writeFileSync_Inr)
  have cA: "current sA = Inr c" unfolding sA using c by (simp add: current_after_sitemap)
  have rA: "readFileSync sA robotsPath = readFileSync s robotsPath"
    unfolding sA by (simp add: read_after_write)
  have xA: "readFileSync sA sitemapPath = Inr xml"
    unfolding sA by (simp add: read_after_write)
  show ?thesis
  proof (cases "trim c \<noteq> trim (desired e)")
    case True
    with f cA have "writeFileSync sA robotsPath (desired e) = Inr s'"
      by (simp add: on_finish_def)
    then have s': "s' = sA\<lparr>fs_files := AList.update robotsPath (desired e) (fs_files sA),
        journal := journal sA @ [Write robotsPath (desired e)]\<rparr>"
      by (simp add: writeFileSync_Inr)
    have r1: "readFileSync s' robotsPath = Inr (desired e)"
      unfolding s' by (simp add: read_after_write)
    have x1: "readFileSync s' sitemapPath = Inr xml"
      unfolding s' using xA by (simp add: read_after_write)
    have j: "journal s' = journal s @ [Write sitemapPath xml, Write robotsPath (desired e)]"
      unfolding s' sA by simp
    show ?thesis using True g r r1 x1 j by (intro exI [of _ files] exI [of _ xml]) simp
  next
    case False
    with f cA have s': "s' = sA" by (simp add: on_finish_def)
    have j: "journal s' = journal s @ [Write sitemapPath xml]"
      unfolding s' sA by simp
    show ?thesis using False g r rA xA j s' by (intro exI [of _ files] exI [of _ xml]) simp
  qed
qed

lemma current_of_read:
  assumes "readFileSync s robotsPath = Inr cur"
  shows "current s = Inr cur"
  using assms read_file_exists [OF assms] by (simp add: current_def existsSync_def)

section \<open>Idempotence\<close>

text \<open>
  What holds of two runs in sequence. Whatever the orders of delivery, a second run
  that finishes on what a finished run left writes \<open>sitemap.xml\<close> and nothing else:
  \<open>robots.txt\<close> already satisfies the comparison.
\<close>

lemma second_run_keeps_robots:
  assumes "build order1 render e s = Inr s1" and "build order2 render e s1 = Inr s2"
  shows "\<exists>xml. journal s2 = journal s1 @ [Write sitemapPath xml]
           \<and> readFileSync s2 robotsPath = readFileSync s1 robotsPath"
proof -
  from assms(1) obtain sA where "on_finish e sA = Inr s1" by (auto simp: build_Inr)
  then have "on_finish e s1 = Inr s1" by (rule on_finish_settled)
  then obtain cur where cur: "current s1 = Inr cur"
    and step: "if trim cur \<noteq> trim (desired e) then writeFileSync s1 robotsPath (desired e) = Inr s1 else s1 = s1"
    by (auto simp: on_finish_Inr)
  from step have same: "trim cur = trim (desired e)"
    using write_changes_journal [of s1 robotsPath "desired e"] by (auto split: if_splits)
  from build_effect [OF assms(2) cur] same show ?thesis by auto
qed

text \<open>
  When the walk of the second run delivers the pages in the order of the first run,
  the second run finishes, writes the same bytes to \<open>sitemap.xml\<close>, and the content of
  no file differs.
\<close>

lemma same_order_same_sitemap:
  assumes "build order1 render e s = Inr s1"
    and "matches s GLOBS = Inr found" and "order2 found = order1 found"
  shows "\<exists>s2 xml. build order2 render e s1 = Inr s2
           \<and> readFileSync s1 sitemapPath = Inr xml \<and> readFileSync s2 sitemapPath = Inr xml
           \<and> journal s2 = journal s1 @ [Write sitemapPath xml]
           \<and> fs_files s2 = fs_files s1"
proof -
  from assms(1) obtain files xml sA where g: "globby_fs order1 s GLOBS = Inr files"
    and r: "render (stream_items (SITE_URL e) (links files)) = Some xml"
    and w: "writeFileSync s sitemapPath xml = Inr sA"
    and f: "on_finish e sA = Inr s1"
    by (auto simp: build_Inr)
  from g assms(2) have files: "files = order1 found" by (simp add: globby_fs_def)
  from w have sA: "sA = s\<lparr>fs_files := AList.update sitemapPath xml (fs_files s),
      journal := journal s @ [Write sitemapPath xml]\<rparr>"
    and ok: "dir_exists s (dirname sitemapPath)" "\<not> dir_exists s sitemapPath" "sitemapPath \<notin> set (readonly s)"
    by (simp_all add: writeFileSync_Inr)
  have gA: "matches sA GLOBS = Inr found"
    unfolding sA using assms(2) by (simp add: matches_after_write outputs_are_not_pages)
  have mA: "map_of (fs_files sA) sitemapPath = Some xml"
    unfolding sA by (simp add: AList.update_conv')
  from on_finish_keeps [OF f] have keep: "fs_dirs s1 = fs_dirs sA" "readonly s1 = readonly sA"
    "map_of (fs_files s1) sitemapPath = Some xml" "matches s1 GLOBS = Inr found"
    using gA mA by simp_all
  have g1: "globby_fs order2 s1 GLOBS = Inr files"
    using keep(4) assms(3) files by (simp add: globby_fs_def)
  define s2 where "s2 = s1\<lparr>journal := journal s1 @ [Write sitemapPath xml]\<rparr>"
  have same: "AList.update sitemapPath xml (fs_files s1) = fs_files s1"
    using keep(3) by (rule AList.update_triv)
  have w1: "writeFileSync s1 sitemapPath xml = Inr s2"
    using ok keep(1,2) same unfolding s2_def sA
    by (simp add: writeFileSync_Inr dir_exists_def)
  have f1: "on_finish e s2 = Inr s2"
    unfolding s2_def using on_finish_settled [OF f] by (rule on_finish_journal)
  have b: "build order2 render e s1 = Inr s2"
    using g1 r w1 f1 by (auto simp: build_Inr)
  have rd: "readFileSync s1 sitemapPath = Inr xml" "readFileSync s2 sitemapPath = Inr xml"
    using keep(3) by (simp_all add: readFileSync_def s2_def)
  show ?thesis
    using b rd by (auto simp: s2_def)
qed

text \<open>
  Claim C6: idempotence. Two runs of the builder in sequence on an unchanged set of
  pages are to leave byte-identical \<open>sitemap.xml\<close>, and the second run is not to write
  \<open>robots.txt\<close>. The second half holds for every order of delivery
  (\<open>second_run_keeps_robots\<close>), and the first half holds when both walks deliver the
  pages in the same order (\<open>same_order_same_sitemap\<close>). But the builder writes the
  items in the order of delivery and never sorts them, so the first half fails on the
  code. On the scenario, the first run leaves the entries \<open>/\<close>, \<open>/services/\<close>,
  \<open>/contact/\<close>; the second run, on what the first one left, with the same three pages
  delivered the other way round, finishes, writes \<open>sitemap.xml\<close> only, and leaves
  \<open>/contact/\<close>, \<open>/services/\<close>, \<open>/\<close>: the two documents differ.
\<close>

theorem build_twice_differs:
  "build stored_order sitemap_xml example_env example_site = Inr first_run
   \<and> readFileSync first_run sitemapPath = Inr example_xml
   \<and> matches example_site GLOBS = Inr example_pages
   \<and> matches first_run GLOBS = Inr example_pages
   \<and> mset (reverse_order example_pages) = mset (stored_order example_pages)
   \<and> build reverse_order sitemap_xml example_env first_run = Inr second_run
   \<and> readFileSync second_run sitemapPath = Inr reversed_xml
   \<and> reversed_xml \<noteq> example_xml
   \<and> journal second_run = journal first_run @ [Write sitemapPath reversed_xml]"
proof -
  have a: "build stored_order sitemap_xml example_env example_site = Inr first_run
     \<and> readFileSync first_run sitemapPath = Inr example_xml" by code_simp
  have b: "matches example_site GLOBS = Inr example_pages
     \<and> matches first_run GLOBS = Inr example_pages" by code_simp
  have c: "mset (reverse_order example_pages) = mset (stored_order example_pages)"
    by (simp add: reverse_order_def stored_order_def)
  have d: "build reverse_order sitemap_xml example_env first_run = Inr second_run
     \<and> readFileSync second_run sitemapPath = Inr reversed_xml" by code_simp
  have e: "reversed_xml \<noteq> example_xml" by code_simp
  have f: "journal second_run = journal first_run @ [Write sitemapPath reversed_xml]" by code_simp
  show ?thesis using a b c d e f by blast
qed

section \<open>Robots reconciliation\<close>

text \<open>
  Claim C5, as the scripts have it. In a run of the builder with \<open>SITE_URL\<close> that
  finishes: when the trimmed content of the existing \<open>robots.txt\<close> equals the trimmed
  desired directive, the file keeps its content and the run's only write is that of
  \<open>sitemap.xml\<close>; when it differs, the file is overwritten with exactly the desired
  directive; a missing file is read as the empty string, which never matches, so the
  directive is written. \<open>scripts/robots.js\<close> makes no comparison: every run of it that
  succeeds writes its own directive (with a blank line before \<open>Sitemap:\<close>).
\<close>

theorem robots_reconciliation:
  "(build order render e s = Inr s' \<and> readFileSync s robotsPath = Inr cur \<and> trim cur = trim (desired e)
      \<longrightarrow> readFileSync s' robotsPath = Inr cur
          \<and> (\<exists>xml. journal s' = journal s @ [Write sitemapPath xml]))
   \<and> (build order render e s = Inr s' \<and> readFileSync s robotsPath = Inr cur \<and> trim cur \<noteq> trim (desired e)
      \<longrightarrow> readFileSync s' robotsPath = Inr (desired e)
          \<and> (\<exists>xml. journal s' = journal s @ [Write sitemapPath xml, Write robotsPath (desired e)]))
   \<and> (build order render e s = Inr s' \<and> \<not> existsSync s robotsPath
      \<longrightarrow> current s = Inr [] \<and> readFileSync s' robotsPath = Inr (desired e))
   \<and> (fst (robots_js e s) = 0
      \<longrightarrow> readFileSync (snd (robots_js e s)) (publicDir @ ''/robots.txt'') = Inr (robotsContent e)
          \<and> (\<exists>before. journal (snd (robots_js e s))
                = journal s @ before @ [Write (publicDir @ ''/robots.txt'') (robotsContent e)]))"
proof -
  have a1: "readFileSync s' robotsPath = Inr cur \<and> (\<exists>xml. journal s' = journal s @ [Write sitemapPath xml])"
    if "build order render e s = Inr s'" "readFileSync s robotsPath = Inr cur" "trim cur = trim (desired e)"
    using build_effect [OF that(1) current_of_read [OF that(2)]] that(2,3) by auto
  have a2: "readFileSync s' robotsPath = Inr (desired e)
      \<and> (\<exists>xml. journal s' = journal s @ [Write sitemapPath xml, Write robotsPath (desired e)])"
    if "build order render e s = Inr s'" "readFileSync s robotsPath = Inr cur" "trim cur \<noteq> trim (desired e)"
    using build_effect [OF that(1) current_of_read [OF that(2)]] that(3) by auto
  have a3: "current s = Inr [] \<and> readFileSync s' robotsPath = Inr (desired e)"
    if "build order render e s = Inr s'" "\<not> existsSync s robotsPath"
  proof -
    have c: "current s = Inr []" using that(2) by (simp add: current_def)
    from build_effect [OF that(1) c] trim_desired_not_empty [of e] show ?thesis using c by auto
  qed
  have a4: "readFileSync (snd (robots_js e s)) (publicDir @ ''/robots.txt'') = Inr (robotsContent e)
          \<and> (\<exists>before. journal (snd (robots_js e s))
                = journal s @ before @ [Write (publicDir @ ''/robots.txt'') (robotsContent e)])"
    if "fst (robots_js e s) = 0"
  proof -
    from that obtain s1 s2 where m: "(if \<not> existsSync s publicDir then mkdirSync s publicDir else Inr s) = Inr s1"
      and w: "writeFileSync s1 (publicDir @ ''/robots.txt'') (robotsContent e) = Inr s2"
      and r: "robots_js e s = (0, s2)"
      by (auto simp: robots_js_def split: sum.splits)
    from m have j1: "\<exists>before. journal s1 = journal s @ before"
      by (auto simp: mkdirSync_def split: if_splits)
    from w have s2: "s2 = s1\<lparr>fs_files := AList.update (publicDir @ ''/robots.txt'') (robotsContent e) (fs_files s1),
          journal := journal s1 @ [Write (publicDir @ ''/robots.txt'') (robotsContent e)]\<rparr>"
      by (simp add: writeFileSync_Inr)
    have rd: "readFileSync s2 (publicDir @ ''/robots.txt'') = Inr (robotsContent e)"
      unfolding s2 by (simp add: read_after_write)
    have j2: "journal s2 = journal s1 @ [Write (publicDir @ ''/robots.txt'') (robotsContent e)]"
      unfolding s2 by simp
    show ?thesis using j1 rd j2 unfolding r by auto
  qed
  show ?thesis using a1 a2 a3 a4 by blast
qed

theorem robots_reconciliation_witness:
  "readFileSync (projr (build stored_order sitemap_xml example_env (with_robots kept_robots example_site))) robotsPath
     = Inr kept_robots
   \<and> (\<exists>xml. journal (projr (build stored_order sitemap_xml example_env (with_robots kept_robots example_site)))
         = journal (with_robots kept_robots example_site) @ [Write sitemapPath xml])
   \<and> readFileSync (projr (build stored_order sitemap_xml example_env (with_robots stale_robots example_site))) robotsPath
     = Inr (desired example_env)
   \<and> readFileSync (projr (build stored_order sitemap_xml example_env example_site)) robotsPath
     = Inr (desired example_env)
   \<and> readFileSync (snd (robots_js example_env example_site)) (publicDir @ ''/robots.txt'')
     = Inr (robotsContent example_env)"
proof -
  let ?k = "with_robots kept_robots example_site"
  let ?t = "with_robots stale_robots example_site"
  have bk: "build stored_order sitemap_xml example_env ?k = Inr (projr (build stored_order sitemap_xml example_env ?k))"
    by code_simp
  have rk: "readFileSync ?k robotsPath = Inr kept_robots" by code_simp
  have tk: "trim kept_robots = trim (desired example_env)" by code_simp
  have bt: "build stored_order sitemap_xml example_env ?t = Inr (projr (build stored_order sitemap_xml example_env ?t))"
    by code_simp
  have rt: "readFileSync ?t robotsPath = Inr stale_robots" by code_simp
  have tt: "trim stale_robots \<noteq> trim (desired example_env)" by code_simp
  have bm: "build stored_order sitemap_xml example_env example_site
      = Inr (projr (build stored_order sitemap_xml example_env example_site))"
    by code_simp
  have em: "\<not> existsSync example_site robotsPath" by code_simp
  have rj: "fst (robots_js example_env example_site) = 0" by code_simp
  note k = robots_reconciliation [where order = stored_order and render = sitemap_xml and e = example_env and s = ?k
      and s' = "projr (build stored_order sitemap_xml example_env ?k)" and cur = kept_robots]
  note t = robots_reconciliation [where order = stored_order and render = sitemap_xml and e = example_env and s = ?t
      and s' = "projr (build stored_order sitemap_xml example_env ?t)" and cur = stale_robots]
  note m = robots_reconciliation [where order = stored_order and render = sitemap_xml and e = example_env and s = example_site
      and s' = "projr (build stored_order sitemap_xml example_env example_site)" and cur = "[]"]
  have c1: "readFileSync (projr (build stored_order sitemap_xml example_env ?k)) robotsPath = Inr kept_robots
    \<and> (\<exists>xml. journal (projr (build stored_order sitemap_xml example_env ?k)) = journal ?k @ [Write sitemapPath xml])"
    using k bk rk tk by blast
  have c2: "readFileSync (projr (build stored_order sitemap_xml example_env ?t)) robotsPath = Inr (desired example_env)"
    using t bt rt tt by blast
  have c3: "readFileSync (projr (build stored_order sitemap_xml example_env example_site)) robotsPath
     = Inr (desired example_env)"
    using m bm em by blast
  have c4: "readFileSync (snd (robots_js example_env example_site)) (publicDir @ ''/robots.txt'')
     = Inr (robotsContent example_env)"
    using m rj by blast
  show ?thesis using c1 c2 c3 c4 by blast
qed

text \<open>
  The claim as stated fails on \<open>scripts/robots.js\<close>: on a robots file that already holds
  exactly its directive, the run writes the file again.
\<close>

theorem robots_reconciliation_counterexample:
  "readFileSync (with_robots (robotsContent example_env) example_site) (publicDir @ ''/robots.txt'')
     = Inr (robotsContent example_env)
   \<and> journal (with_robots (robotsContent example_env) example_site) = []
   \<and> fst (robots_js example_env (with_robots (robotsContent example_env) example_site)) = 0
   \<and> journal (snd (robots_js example_env (with_robots (robotsContent example_env) example_site)))
     = [Write ''public/robots.txt'' (robotsContent example_env)]"
  by code_simp

section \<open>The end-to-end scenario\<close>

lemma example_matches: "matches example_site GLOBS = Inr example_pages"
  by code_simp

lemma example_listing: "globby_fs order example_site GLOBS = Inr (order example_pages)"
  by (simp add: globby_fs_def example_matches)

lemma example_site_ready:
  "dir_exists example_site publicDir" "\<not> dir_exists example_site sitemapPath"
  "\<not> dir_exists example_site robotsPath" "sitemapPath \<notin> set (readonly example_site)"
  "robotsPath \<notin> set (readonly example_site)" "robotsPath \<notin> set (sealed example_site)"
  "\<not> existsSync example_site robotsPath"
  by code_simp+

lemma stream_items_rearranged:
  assumes "mset (order pages) = mset pages"
  shows "mset (stream_items h (links (order pages))) = mset (stream_items h (links pages))"
proof -
  have "stream_items h (links xs) = map (\<lambda>f. normalizeURL h (make_link (strip_public f))) xs" for xs
    by (simp add: stream_items_def links_def)
  then show ?thesis using assms by (metis mset_map)
qed

text \<open>
  Claim C1: the end-to-end scenario. For the origin \<open>https://www.example.com\<close> and the
  five listed pages, the builder writes exactly three items to the stream: \<open>/\<close> with
  priority 1.0, \<open>/services/\<close> with 0.8 and \<open>/contact/\<close> with 0.9, which the stream
  resolves to the absolute URLs that are the origin followed by the path; in whatever
  order the walk delivers the pages, these three and no other; and when the stream
  finishes, the run finishes, \<open>sitemap.xml\<close> holds the stream's document and
  \<open>robots.txt\<close> holds exactly the three-line directive for the origin.
\<close>

theorem end_to_end_scenario:
  "map fst (fs_files example_site)
     = [''public/index.html'', ''public/services/index.html'', ''public/contact/index.html'',
        ''public/404.html'', ''public/thanks/index.html'']
   \<and> SITE_URL example_env = ''https://www.example.com''
   \<and> globby_fs order example_site GLOBS = Inr (order example_pages)
   \<and> links example_pages
       = [\<lparr>url = ''/'', changefreq = Some ''weekly'', link_priority = Some 1.0\<rparr>,
          \<lparr>url = ''/services/'', changefreq = Some ''weekly'', link_priority = Some 0.8\<rparr>,
          \<lparr>url = ''/contact/'', changefreq = Some ''weekly'', link_priority = Some 0.9\<rparr>]
   \<and> map (\<lambda>l. absolute_url (SITE_URL example_env) (url l)) (links example_pages)
       = [''https://www.example.com/'', ''https://www.example.com/services/'',
          ''https://www.example.com/contact/'']
   \<and> stream_items (SITE_URL example_env) (links example_pages)
       = [\<lparr>url = ''https://www.example.com/'', changefreq = Some ''weekly'', link_priority = Some 1.0\<rparr>,
          \<lparr>url = ''https://www.example.com/services/'', changefreq = Some ''weekly'',
             link_priority = Some 0.8\<rparr>,
          \<lparr>url = ''https://www.example.com/contact/'', changefreq = Some ''weekly'',
             link_priority = Some 0.9\<rparr>]
   \<and> (mset (order example_pages) = mset example_pages
        \<longrightarrow> mset (stream_items (SITE_URL example_env) (links (order example_pages)))
            = mset (stream_items (SITE_URL example_env) (links example_pages)))
   \<and> (render (stream_items (SITE_URL example_env) (links (order example_pages))) = Some xml
        \<longrightarrow> (\<exists>s'. build order render example_env example_site = Inr s'
               \<and> readFileSync s' sitemapPath = Inr xml
               \<and> readFileSync s' robotsPath
                   = Inr ''User-agent: *\<newline>Allow: /\<newline>Sitemap: https://www.example.com/sitemap.xml\<newline>''))"
proof -
  have a: "map fst (fs_files example_site)
     = [''public/index.html'', ''public/services/index.html'', ''public/contact/index.html'',
        ''public/404.html'', ''public/thanks/index.html'']" by code_simp
  have b: "SITE_URL example_env = ''https://www.example.com''" by code_simp
  have c: "links example_pages
       = [\<lparr>url = ''/'', changefreq = Some ''weekly'', link_priority = Some 1.0\<rparr>,
          \<lparr>url = ''/services/'', changefreq = Some ''weekly'', link_priority = Some 0.8\<rparr>,
          \<lparr>url = ''/contact/'', changefreq = Some ''weekly'', link_priority = Some 0.9\<rparr>]"
    by code_simp
  have d: "map (\<lambda>l. absolute_url (SITE_URL example_env) (url l)) (links example_pages)
       = [''https://www.example.com/'', ''https://www.example.com/services/'',
          ''https://www.example.com/contact/'']" by code_simp
  have d': "stream_items (SITE_URL example_env) (links example_pages)
       = [\<lparr>url = ''https://www.example.com/'', changefreq = Some ''weekly'', link_priority = Some 1.0\<rparr>,
          \<lparr>url = ''https://www.example.com/services/'', changefreq = Some ''weekly'',
             link_priority = Some 0.8\<rparr>,
          \<lparr>url = ''https://www.example.com/contact/'', changefreq = Some ''weekly'',
             link_priority = Some 0.9\<rparr>]" by code_simp
  have de: "desired example_env
      = ''User-agent: *\<newline>Allow: /\<newline>Sitemap: https://www.example.com/sitemap.xml\<newline>''"
    by code_simp
  have e: "\<exists>s'. build order render example_env example_site = Inr s'
               \<and> readFileSync s' sitemapPath = Inr xml
               \<and> readFileSync s' robotsPath
                   = Inr ''User-agent: *\<newline>Allow: /\<newline>Sitemap: https://www.example.com/sitemap.xml\<newline>''"
    if r: "render (stream_items (SITE_URL example_env) (links (order example_pages))) = Some xml"
  proof -
    from build_finishes [where render = render and e = example_env and order = order,
        OF example_listing r example_site_ready(1-6)]
    obtain s' where s': "build order render example_env example_site = Inr s'" by blast
    have cur: "current example_site = Inr []"
      using example_site_ready(7) by (simp add: current_def)
    from build_effect [OF s' cur] r example_listing [of order] trim_desired_not_empty [of example_env]
    have "readFileSync s' sitemapPath = Inr xml \<and> readFileSync s' robotsPath = Inr (desired example_env)"
      by auto
    then show ?thesis using s' by (simp add: de)
  qed
  show ?thesis using a b c d d' e example_listing stream_items_rearranged by blast
qed

lemma example_render:
  "sitemap_xml (stream_items (SITE_URL example_env) (links (stored_order example_pages))) = Some example_xml"
  by code_simp

theorem end_to_end_scenario_witness:
  "mset (reverse_order example_pages) = mset example_pages
   \<and> mset (stream_items (SITE_URL example_env) (links (reverse_order example_pages)))
       = mset (stream_items (SITE_URL example_env) (links example_pages))
   \<and> sitemap_xml (stream_items (SITE_URL example_env) (links (stored_order example_pages)))
       = Some example_xml
   \<and> (\<exists>s'. build stored_order sitemap_xml example_env example_site = Inr s'
          \<and> readFileSync s' sitemapPath = Inr example_xml
          \<and> readFileSync s' robotsPath
              = Inr ''User-agent: *\<newline>Allow: /\<newline>Sitemap: https://www.example.com/sitemap.xml\<newline>'')"
proof -
  have m: "mset (reverse_order example_pages) = mset example_pages"
    by (simp add: reverse_order_def)
  show ?thesis
    using end_to_end_scenario [where order = stored_order and render = sitemap_xml and xml = example_xml]
      end_to_end_scenario [where order = reverse_order]
      example_render m
    by blast
qed

section \<open>The origin\<close>

lemma dirname_outputs:
  "dirname sitemapPath = publicDir" "dirname robotsPath = publicDir"
  "dirname (publicDir @ ''/robots.txt'') = publicDir" "dirname publicDir = ''.''"
  by code_simp+


lemma seo_js_failed: "fst (seo_js order render e s) \<noteq> 0 \<Longrightarrow> seo_js order render e s = (1, s)"
  by (auto simp: seo_js_def split: sum.splits option.splits)








section \<open>Failures\<close>

text \<open>
  Claim C9, as the scripts have it. \<open>scripts/seo.js\<close> exits with code 1 and leaves the
  file system as it was when the output root does not exist, when the listing is
  denied, or when the write of \<open>sitemap.xml\<close> is denied; whenever it fails it has
  changed nothing, and it never creates a directory. \<open>scripts/robots.js\<close> creates the
  output root when it is missing and then writes \<open>robots.txt\<close>, exiting with code 0;
  it exits with code 1 when it may not create the root or may not write the file.
\<close>

theorem failure_exits:
  "(\<not> dir_exists s publicDir \<or> walk s publicDir = Inl EACCES \<or> sitemapPath \<in> set (readonly s)
      \<longrightarrow> seo_js order render e s = (1, s))
   \<and> (fst (seo_js order render e s) \<noteq> 0 \<longrightarrow> seo_js order render e s = (1, s))
   \<and> fs_dirs (snd (seo_js order render e s)) = fs_dirs s
   \<and> (\<not> existsSync s publicDir \<and> \<not> dir_exists s (publicDir @ ''/robots.txt'')
        \<and> publicDir \<notin> set (readonly s) \<and> publicDir @ ''/robots.txt'' \<notin> set (readonly s)
      \<longrightarrow> robots_js e s
          = (0, s\<lparr>fs_dirs := fs_dirs s @ [publicDir],
                  fs_files := AList.update (publicDir @ ''/robots.txt'') (robotsContent e) (fs_files s),
                  journal := journal s @ [Mkdir publicDir, Write (publicDir @ ''/robots.txt'') (robotsContent e)]\<rparr>))
   \<and> (\<not> existsSync s publicDir \<and> publicDir \<in> set (readonly s) \<longrightarrow> robots_js e s = (1, s))
   \<and> (publicDir @ ''/robots.txt'' \<in> set (readonly s) \<longrightarrow> fst (robots_js e s) = 1)"
proof -
  have a: "seo_js order render e s = (1, s)"
    if h: "\<not> dir_exists s publicDir \<or> walk s publicDir = Inl EACCES \<or> sitemapPath \<in> set (readonly s)"
  proof -
    consider (missing) "\<not> dir_exists s publicDir" | (denied) "walk s publicDir = Inl EACCES"
      | (locked) "sitemapPath \<in> set (readonly s)"
      using h by blast
    then show ?thesis
    proof cases
      case missing
      then have "writeFileSync s sitemapPath xml = Inl ENOENT" for xml
        by (simp add: writeFileSync_def dirname_outputs)
      then show ?thesis
        by (auto simp: seo_js_def split: sum.splits option.splits)
    next
      case denied
      then have "globby_fs order s seo_patterns = Inl EACCES"
        by (simp add: globby_fs_def matches_def publicDir_def)
      then show ?thesis by (simp add: seo_js_def)
    next
      case locked
      then have "\<exists>err. writeFileSync s sitemapPath xml = Inl err" for xml
        by (simp add: writeFileSync_def)
      then show ?thesis
        by (auto simp: seo_js_def split: sum.splits option.splits) (metis Inl_Inr_False)
    qed
  qed
  have b: "fst (seo_js order render e s) \<noteq> 0 \<longrightarrow> seo_js order render e s = (1, s)"
    using seo_js_failed by blast
  have c: "fs_dirs (snd (seo_js order render e s)) = fs_dirs s"
    by (auto simp: seo_js_def writeFileSync_def split: sum.splits option.splits if_splits)
  have d: "robots_js e s
          = (0, s\<lparr>fs_dirs := fs_dirs s @ [publicDir],
                  fs_files := AList.update (publicDir @ ''/robots.txt'') (robotsContent e) (fs_files s),
                  journal := journal s @ [Mkdir publicDir, Write (publicDir @ ''/robots.txt'') (robotsContent e)]\<rparr>)"
    if h: "\<not> existsSync s publicDir \<and> \<not> dir_exists s (publicDir @ ''/robots.txt'')
        \<and> publicDir \<notin> set (readonly s) \<and> publicDir @ ''/robots.txt'' \<notin> set (readonly s)"
  proof -
    define s1 where "s1 = s\<lparr>fs_dirs := fs_dirs s @ [publicDir], journal := journal s @ [Mkdir publicDir]\<rparr>"
    have m: "mkdirSync s publicDir = Inr s1"
      using h by (simp add: mkdirSync_def dirname_outputs dir_exists_def s1_def)
    have w: "writeFileSync s1 (publicDir @ ''/robots.txt'') (robotsContent e)
        = Inr (s1\<lparr>fs_files := AList.update (publicDir @ ''/robots.txt'') (robotsContent e) (fs_files s1),
                 journal := journal s1 @ [Write (publicDir @ ''/robots.txt'') (robotsContent e)]\<rparr>)"
      using h unfolding writeFileSync_def dirname_outputs
      by (simp add: dir_exists_def s1_def publicDir_def)
    show ?thesis
      using h m w by (simp add: robots_js_def s1_def)
  qed
  have f: "robots_js e s = (1, s)" if "\<not> existsSync s publicDir \<and> publicDir \<in> set (readonly s)"
    using that by (simp add: robots_js_def mkdirSync_def dirname_outputs dir_exists_def)
  have g: "fst (robots_js e s) = 1" if "publicDir @ ''/robots.txt'' \<in> set (readonly s)"
  proof -
    have "\<exists>err. writeFileSync t (publicDir @ ''/robots.txt'') (robotsContent e) = Inl err"
      if "readonly t = readonly s" for t
      using that \<open>publicDir @ ''/robots.txt'' \<in> set (readonly s)\<close> by (simp add: writeFileSync_def)
    moreover have "readonly t = readonly s" if "mkdirSync s publicDir = Inr t" for t
      using that by (auto simp: mkdirSync_def split: if_splits)
    ultimately show ?thesis
      by (auto simp: robots_js_def split: sum.splits if_splits) (metis Inl_Inr_False)+
  qed
  show ?thesis using a b c d f g by blast
qed

theorem failure_exits_witness:
  "seo_js stored_order sitemap_xml example_env empty_fs = (1, empty_fs)
   \<and> seo_js stored_order sitemap_xml example_env hidden_site = (1, hidden_site)
   \<and> seo_js stored_order sitemap_xml example_env locked_site = (1, locked_site)
   \<and> fst (seo_js stored_order (\<lambda>items. None) example_env example_site) \<noteq> 0
   \<and> seo_js stored_order (\<lambda>items. None) example_env example_site = (1, example_site)
   \<and> robots_js example_env empty_fs
      = (0, empty_fs\<lparr>fs_dirs := [''public''],
                     fs_files := [(''public/robots.txt'', robotsContent example_env)],
                     journal := [Mkdir ''public'', Write ''public/robots.txt'' (robotsContent example_env)]\<rparr>)
   \<and> robots_js example_env (empty_fs\<lparr>readonly := [''public'']\<rparr>) = (1, empty_fs\<lparr>readonly := [''public'']\<rparr>)
   \<and> fst (robots_js example_env locked_site) = 1"
proof -
  have h1: "\<not> dir_exists empty_fs publicDir" by code_simp
  have h2: "walk hidden_site publicDir = Inl EACCES" by code_simp
  have h3: "sitemapPath \<in> set (readonly locked_site)" by code_simp
  have h4: "\<not> existsSync empty_fs publicDir \<and> \<not> dir_exists empty_fs (publicDir @ ''/robots.txt'')
        \<and> publicDir \<notin> set (readonly empty_fs) \<and> publicDir @ ''/robots.txt'' \<notin> set (readonly empty_fs)"
    by code_simp
  have h5: "\<not> existsSync (empty_fs\<lparr>readonly := [''public'']\<rparr>) publicDir
      \<and> publicDir \<in> set (readonly (empty_fs\<lparr>readonly := [''public'']\<rparr>))" by code_simp
  have h6: "publicDir @ ''/robots.txt'' \<in> set (readonly locked_site)" by code_simp
  have c1: "seo_js stored_order sitemap_xml example_env empty_fs = (1, empty_fs)"
    using failure_exits [where order = stored_order and s = empty_fs and render = sitemap_xml and e = example_env] h1 by blast
  have c2: "seo_js stored_order sitemap_xml example_env hidden_site = (1, hidden_site)"
    using failure_exits [where order = stored_order and s = hidden_site and render = sitemap_xml and e = example_env] h2 by blast
  have c3: "seo_js stored_order sitemap_xml example_env locked_site = (1, locked_site)"
    using failure_exits [where order = stored_order and s = locked_site and render = sitemap_xml and e = example_env] h3 by blast
  have c4: "robots_js example_env empty_fs
      = (0, empty_fs\<lparr>fs_dirs := fs_dirs empty_fs @ [publicDir],
                  fs_files := AList.update (publicDir @ ''/robots.txt'') (robotsContent example_env) (fs_files empty_fs),
                  journal := journal empty_fs @ [Mkdir publicDir, Write (publicDir @ ''/robots.txt'') (robotsContent example_env)]\<rparr>)"
    using failure_exits [where order = stored_order and s = empty_fs and render = sitemap_xml and e = example_env] h4 by blast
  have c4': "robots_js example_env empty_fs
      = (0, empty_fs\<lparr>fs_dirs := [''public''],
                     fs_files := [(''public/robots.txt'', robotsContent example_env)],
                     journal := [Mkdir ''public'', Write ''public/robots.txt'' (robotsContent example_env)]\<rparr>)"
    unfolding c4 by (simp add: empty_fs_def publicDir_def)
  have c5: "robots_js example_env (empty_fs\<lparr>readonly := [''public'']\<rparr>) = (1, empty_fs\<lparr>readonly := [''public'']\<rparr>)"
    using failure_exits [where order = stored_order and s = "empty_fs\<lparr>readonly := [''public'']\<rparr>" and render = sitemap_xml and e = example_env] h5
    by blast
  have c6: "fst (robots_js example_env locked_site) = 1"
    using failure_exits [where order = stored_order and s = locked_site and render = sitemap_xml and e = example_env] h6 by blast
  have h7: "fst (seo_js stored_order (\<lambda>items. None) example_env example_site) \<noteq> 0" by code_simp
  have c7: "seo_js stored_order (\<lambda>items. None) example_env example_site = (1, example_site)"
    using failure_exits [where order = stored_order and s = example_site and render = "\<lambda>items. None" and e = example_env] h7
    by blast
  show ?thesis using c1 c2 c3 c4' c5 c6 h7 c7 by blast
qed

text \<open>
  The claim as stated fails on \<open>scripts/robots.js\<close>: with no output root, the run
  creates it, writes \<open>robots.txt\<close> and exits with code 0.
\<close>

theorem failure_exits_counterexample:
  "\<not> existsSync empty_fs publicDir
   \<and> fst (robots_js example_env empty_fs) = 0
   \<and> fs_dirs (snd (robots_js example_env empty_fs)) = [''public'']
   \<and> journal (snd (robots_js example_env empty_fs))
       = [Mkdir ''public'', Write ''public/robots.txt'' (robotsContent example_env)]"
  by code_simp

section \<open>The listing and its exclusions\<close>

lemma split_on_not_Nil [simp]: "split_on c p \<noteq> []"
  by (induction p) (auto split: list.splits)

lemma join_with_Cons: "ys \<noteq> [] \<Longrightarrow> join_with c (x # ys) = x @ c # join_with c ys"
  by (cases ys) auto

lemma join_split: "join_with c (split_on c p) = p"
proof (induction p)
  case Nil
  then show ?case by simp
next
  case (Cons x p)
  obtain piece pieces where sp: "split_on c p = piece # pieces"
    by (cases "split_on c p") auto
  show ?case
  proof (cases "x = c")
    case True
    then show ?thesis using Cons.IH by (simp add: join_with_Cons)
  next
    case False
    then show ?thesis using Cons.IH sp by (cases pieces) auto
  qed
qed

lemma split_on_append: "split_on c (q @ c # r) = split_on c q @ split_on c r"
proof (induction q)
  case Nil
  then show ?case by simp
next
  case (Cons x q)
  obtain piece pieces where sp: "split_on c q = piece # pieces"
    by (cases "split_on c q") auto
  show ?case using Cons.IH sp by simp
qed

lemma wildcard_literal: "CHR ''*'' \<notin> set p \<Longrightarrow> wildcard p s \<longleftrightarrow> s = p"
  by (induction p s rule: wildcard.induct) auto

lemma segment_literal:
  "CHR ''*'' \<notin> set p \<Longrightarrow> \<not> leading_dot p \<Longrightarrow> segment_match p s \<longleftrightarrow> s = p"
  by (auto simp: segment_match_def wildcard_literal)

lemma globstar:
  "match_segs (''**'' # ps) ss \<longleftrightarrow>
     (\<exists>mid rest. ss = mid @ rest \<and> (\<forall>d \<in> set mid. \<not> leading_dot d) \<and> match_segs ps rest)"
proof (induction ss)
  case Nil
  then show ?case by (cases ps) auto
next
  case (Cons s ss)
  show ?case (is "?L \<longleftrightarrow> ?R")
  proof
    assume ?L
    then consider "match_segs ps (s # ss)" | "\<not> leading_dot s" "match_segs (''**'' # ps) ss"
      by (auto split: if_splits)
    then show ?R
    proof cases
      case 1
      then have "s # ss = [] @ (s # ss) \<and> (\<forall>d \<in> set []. \<not> leading_dot d) \<and> match_segs ps (s # ss)"
        by simp
      then show ?thesis by blast
    next
      case 2
      with Cons.IH obtain mid rest where m: "ss = mid @ rest" "\<forall>d \<in> set mid. \<not> leading_dot d"
        "match_segs ps rest" by blast
      with 2 have "s # ss = (s # mid) @ rest \<and> (\<forall>d \<in> set (s # mid). \<not> leading_dot d) \<and> match_segs ps rest"
        by simp
      then show ?thesis by blast
    qed
  next
    assume ?R
    then obtain mid rest where m: "s # ss = mid @ rest" "\<forall>d \<in> set mid. \<not> leading_dot d"
      "match_segs ps rest" by blast
    show ?L
    proof (cases mid)
      case Nil
      with m have "match_segs ps (s # ss)" by simp
      then show ?thesis by simp
    next
      case (Cons d mid')
      with m have "s = d" "ss = mid' @ rest" "\<not> leading_dot s" "\<forall>d \<in> set mid'. \<not> leading_dot d" by auto
      with m(3) Cons.IH have "match_segs (''**'' # ps) ss" by blast
      with \<open>\<not> leading_dot s\<close> show ?thesis by simp
    qed
  qed
qed


lemma pattern_segments:
  "split_on CHR ''/'' ''public/**/*.html'' = [''public'', ''**'', ''*.html'']"
  "split_on CHR ''/'' ''public/**/thanks/index.html'' = [''public'', ''**'', ''thanks'', ''index.html'']"
  "split_on CHR ''/'' ''public/404.html'' = [''public'', ''404.html'']"
  by code_simp+

lemma literal_segments:
  "segment_match ''public'' s \<longleftrightarrow> s = ''public''"
  "segment_match ''thanks'' s \<longleftrightarrow> s = ''thanks''"
  "segment_match ''index.html'' s \<longleftrightarrow> s = ''index.html''"
  "segment_match ''404.html'' s \<longleftrightarrow> s = ''404.html''"
  by (simp_all add: segment_literal leading_dot_def)

lemma match_one: "p \<noteq> ''**'' \<Longrightarrow> match_segs [p] ss \<longleftrightarrow> (\<exists>s. ss = [s] \<and> segment_match p s)"
  by (cases ss) auto

lemma match_two:
  "p \<noteq> ''**'' \<Longrightarrow> q \<noteq> ''**'' \<Longrightarrow>
     match_segs [p, q] ss \<longleftrightarrow> (\<exists>s t. ss = [s, t] \<and> segment_match p s \<and> segment_match q t)"
  by (cases ss) (auto simp: match_one)

lemma not_found_glob: "glob_match ''public/404.html'' p \<longleftrightarrow> is_not_found_page p"
proof
  assume "glob_match ''public/404.html'' p"
  then have "split_on CHR ''/'' p = [''public'', ''404.html'']"
    by (auto simp: glob_match_def pattern_segments match_two literal_segments)
  then have "join_with CHR ''/'' (split_on CHR ''/'' p) = ''public/404.html''" by simp
  then show "is_not_found_page p" by (simp add: join_split is_not_found_page_def)
next
  assume "is_not_found_page p"
  then have "p = ''public/404.html''" by (simp add: is_not_found_page_def)
  moreover have "glob_match ''public/404.html'' ''public/404.html''" by code_simp
  ultimately show "glob_match ''public/404.html'' p" by simp
qed

lemma html_glob:
  "glob_match ''public/**/*.html'' p \<longleftrightarrow>
     (\<exists>mid f. split_on CHR ''/'' p = ''public'' # mid @ [f] \<and> (\<forall>d \<in> set mid. \<not> leading_dot d)
        \<and> segment_match ''*.html'' f)"
proof -
  have "match_segs [''public'', ''**'', ''*.html''] ss \<longleftrightarrow>
      (\<exists>mid f. ss = ''public'' # mid @ [f] \<and> (\<forall>d \<in> set mid. \<not> leading_dot d) \<and> segment_match ''*.html'' f)"
    for ss
  proof (cases ss)
    case Nil
    then show ?thesis by simp
  next
    case (Cons s rest)
    have "match_segs [''public'', ''**'', ''*.html''] (s # rest)
        \<longleftrightarrow> s = ''public'' \<and> match_segs (''**'' # [''*.html'']) rest"
      by (simp add: literal_segments)
    also have "\<dots> \<longleftrightarrow> s = ''public'' \<and> (\<exists>mid tl. rest = mid @ tl \<and> (\<forall>d \<in> set mid. \<not> leading_dot d)
        \<and> (\<exists>f. tl = [f] \<and> segment_match ''*.html'' f))"
      by (simp add: globstar match_one)
    finally show ?thesis using Cons by auto
  qed
  then show ?thesis by (simp add: glob_match_def pattern_segments)
qed

lemma thanks_glob:
  "glob_match ''public/**/thanks/index.html'' p \<longleftrightarrow>
     (\<exists>mid. split_on CHR ''/'' p = ''public'' # mid @ [''thanks'', ''index.html'']
        \<and> (\<forall>d \<in> set mid. \<not> leading_dot d))"
proof -
  have "match_segs [''public'', ''**'', ''thanks'', ''index.html''] ss \<longleftrightarrow>
      (\<exists>mid. ss = ''public'' # mid @ [''thanks'', ''index.html''] \<and> (\<forall>d \<in> set mid. \<not> leading_dot d))"
    for ss
  proof (cases ss)
    case Nil
    then show ?thesis by simp
  next
    case (Cons s rest)
    have "match_segs [''public'', ''**'', ''thanks'', ''index.html''] (s # rest)
        \<longleftrightarrow> s = ''public'' \<and> match_segs (''**'' # [''thanks'', ''index.html'']) rest"
      by (simp add: literal_segments)
    also have "\<dots> \<longleftrightarrow> s = ''public'' \<and> (\<exists>mid tl. rest = mid @ tl \<and> (\<forall>d \<in> set mid. \<not> leading_dot d)
        \<and> tl = [''thanks'', ''index.html''])"
      by (auto simp: globstar match_two literal_segments)
    finally show ?thesis using Cons by auto
  qed
  then show ?thesis by (simp add: glob_match_def pattern_segments)
qed


lemma join_with_append:
  "xs \<noteq> [] \<Longrightarrow> ys \<noteq> [] \<Longrightarrow> join_with c (xs @ ys) = join_with c xs @ c # join_with c ys"
proof (induction xs)
  case Nil
  then show ?case by simp
next
  case (Cons x xs)
  show ?case
  proof (cases "xs = []")
    case True
    then show ?thesis using Cons.prems by (simp add: join_with_Cons)
  next
    case False
    then show ?thesis using Cons by (simp add: join_with_Cons)
  qed
qed

lemma thanks_page_glob:
  assumes html: "glob_match ''public/**/*.html'' p"
  shows "glob_match ''public/**/thanks/index.html'' p \<longleftrightarrow> is_thanks_page p"
proof
  assume "glob_match ''public/**/thanks/index.html'' p"
  then obtain mid where sp: "split_on CHR ''/'' p = ''public'' # mid @ [''thanks'', ''index.html'']"
    by (auto simp: thanks_glob)
  have "p = join_with CHR ''/'' ((''public'' # mid) @ [''thanks'', ''index.html''])"
    using join_split [of "CHR ''/''" p] sp by simp
  also have "\<dots> = join_with CHR ''/'' (''public'' # mid) @ CHR ''/'' # join_with CHR ''/'' [''thanks'', ''index.html'']"
    by (rule join_with_append) simp_all
  finally have p1: "p = join_with CHR ''/'' (''public'' # mid) @ ''/thanks/index.html''" by simp
  have "join_with CHR ''/'' (''public'' # mid @ [''thanks'', ''index.html''])
      = ''public'' @ CHR ''/'' # join_with CHR ''/'' (mid @ [''thanks'', ''index.html''])"
    by (rule join_with_Cons) simp
  then have p2: "p = ''public/'' @ join_with CHR ''/'' (mid @ [''thanks'', ''index.html''])"
    using join_split [of "CHR ''/''" p] sp by simp
  have "suffix ''/thanks/index.html'' p" using p1 by (metis suffix_same)
  moreover have "prefix ''public/'' p" using p2 by (metis prefixI)
  ultimately show "is_thanks_page p" by (simp add: is_thanks_page_def)
next
  assume "is_thanks_page p"
  then obtain q where q: "p = q @ CHR ''/'' # ''thanks/index.html''"
    by (auto simp: is_thanks_page_def suffix_def)
  have t: "split_on CHR ''/'' ''thanks/index.html'' = [''thanks'', ''index.html'']" by code_simp
  have sp: "split_on CHR ''/'' p = split_on CHR ''/'' q @ [''thanks'', ''index.html'']"
    unfolding q split_on_append t by simp
  from html obtain mid f where h: "split_on CHR ''/'' p = ''public'' # mid @ [f]"
    and nodot: "\<forall>d \<in> set mid. \<not> leading_dot d"
    by (auto simp: html_glob)
  obtain a rest where aq: "split_on CHR ''/'' q = a # rest"
    by (cases "split_on CHR ''/'' q") auto
  from sp h aq have eq: "a # rest @ [''thanks'', ''index.html''] = ''public'' # mid @ [f]" by simp
  then have a: "a = ''public''" and tl: "(rest @ [''thanks'']) @ [''index.html''] = mid @ [f]" by simp_all
  from tl have mid: "mid = rest @ [''thanks'']" by (simp only: append1_eq_conv)
  with nodot have "\<forall>d \<in> set rest. \<not> leading_dot d" by simp
  moreover have "split_on CHR ''/'' p = ''public'' # rest @ [''thanks'', ''index.html'']"
    using sp aq a by simp
  ultimately show "glob_match ''public/**/thanks/index.html'' p"
    by (auto simp: thanks_glob)
qed

lemma GLOBS_parts:
  "filter (\<lambda>pat. \<not> is_negative pat) GLOBS = [''public/**/*.html'']"
  "filter is_negative GLOBS = [''!public/404.html'', ''!public/**/thanks/index.html'']"
  by code_simp+

lemma builder_listing:
  "globby GLOBS paths
     = filter (\<lambda>p. \<not> (is_not_found_page p \<or> is_thanks_page p)) (html_files paths)"
proof -
  have "globby GLOBS paths
      = filter (\<lambda>p. glob_match ''public/**/*.html'' p
          \<and> \<not> (glob_match ''public/404.html'' p \<or> glob_match ''public/**/thanks/index.html'' p)) paths"
    by (simp add: globby_def GLOBS_parts)
  also have "\<dots> = filter (\<lambda>p. glob_match ''public/**/*.html'' p
          \<and> \<not> (is_not_found_page p \<or> is_thanks_page p)) paths"
    by (rule filter_cong) (auto simp: not_found_glob thanks_page_glob)
  also have "\<dots> = filter (\<lambda>p. \<not> (is_not_found_page p \<or> is_thanks_page p)) (html_files paths)"
    by (simp add: html_files_def conj_commute)
  finally show ?thesis .
qed

lemma builder_entry_count:
  "length (links (globby GLOBS paths))
     = length (html_files paths)
       - length (filter (\<lambda>p. is_not_found_page p \<or> is_thanks_page p) (html_files paths))"
proof -
  have "length (filter (\<lambda>p. is_not_found_page p \<or> is_thanks_page p) (html_files paths))
      + length (filter (\<lambda>p. \<not> (is_not_found_page p \<or> is_thanks_page p)) (html_files paths))
      = length (html_files paths)"
    by (rule sum_length_filter_compl)
  then show ?thesis by (simp add: builder_listing links_def)
qed

lemma builder_excludes:
  "p \<in> set (globby GLOBS paths) \<Longrightarrow> \<not> is_not_found_page p \<and> \<not> is_thanks_page p"
  by (simp add: builder_listing)

text \<open>
  The same of a run, in whatever order its walk delivers the pages, when none of the
  three patterns names a directory.
\<close>

lemma builder_run_entry_count:
  assumes "walk s ''public'' = Inr paths"
    and "\<And>pat. pat \<in> set GLOBS \<Longrightarrow> \<not> dir_exists s (if is_negative pat then drop 1 pat else pat)"
    and "mset (order (globby GLOBS paths)) = mset (globby GLOBS paths)"
  shows "\<exists>files. globby_fs order s GLOBS = Inr files
     \<and> length (links files)
         = length (html_files paths)
           - length (filter (\<lambda>p. is_not_found_page p \<or> is_thanks_page p) (html_files paths))
     \<and> (\<forall>p \<in> set files. \<not> is_not_found_page p \<and> \<not> is_thanks_page p)"
proof -
  have e: "expandDirectories s GLOBS = GLOBS"
    using assms(2) by (rule expandDirectories_none)
  have g: "globby_fs order s GLOBS = Inr (order (globby GLOBS paths))"
    using assms(1) e by (simp add: globby_fs_def matches_def)
  from assms(3) have l: "length (order (globby GLOBS paths)) = length (globby GLOBS paths)"
    by (rule mset_eq_length)
  from assms(3) have m: "set (order (globby GLOBS paths)) = set (globby GLOBS paths)"
    by (rule mset_eq_setD)
  have n: "length (links (order (globby GLOBS paths))) = length (links (globby GLOBS paths))"
    using l by (simp add: links_def)
  show ?thesis
    using g n m builder_entry_count [of paths] builder_excludes [of _ paths] by auto
qed

text \<open>
  Claim C2: the number of sitemap entries is the number of input HTML files minus
  the excluded ones, the not-found page and every thank-you page \<open>thanks/index.html\<close>,
  and no excluded page contributes an entry. This holds for the patterns of the
  builder with \<open>SITE_URL\<close> on every file list (\<open>builder_entry_count\<close>,
  \<open>builder_excludes\<close>), and so for every run of it over a tree in which none of the
  three patterns names a directory (\<open>builder_run_entry_count\<close>). \<open>scripts/seo.js\<close>
  misses the pattern for the thank-you pages: on the scenario's five pages it lists
  the thank-you page and emits \<open>/thanks/\<close>, four entries where the claim and the other
  builder give three, in whatever order the walk delivers them.
\<close>

theorem seo_js_lists_thanks_page:
  "is_thanks_page ''public/thanks/index.html''
   \<and> globby_fs stored_order example_site seo_patterns
       = Inr [''public/index.html'', ''public/services/index.html'', ''public/contact/index.html'',
              ''public/thanks/index.html'']
   \<and> urls [''public/index.html'', ''public/services/index.html'', ''public/contact/index.html'',
            ''public/thanks/index.html'']
       = [''/'', ''/services/'', ''/contact/'', ''/thanks/'']
   \<and> globby_fs stored_order example_site GLOBS
       = Inr [''public/index.html'', ''public/services/index.html'', ''public/contact/index.html'']
   \<and> globby_fs order example_site seo_patterns
       = Inr (order [''public/index.html'', ''public/services/index.html'', ''public/contact/index.html'',
                     ''public/thanks/index.html''])
   \<and> globby_fs order example_site GLOBS
       = Inr (order [''public/index.html'', ''public/services/index.html'', ''public/contact/index.html''])"
proof -
  have a: "is_thanks_page ''public/thanks/index.html''
   \<and> globby_fs stored_order example_site seo_patterns
       = Inr [''public/index.html'', ''public/services/index.html'', ''public/contact/index.html'',
              ''public/thanks/index.html'']
   \<and> urls [''public/index.html'', ''public/services/index.html'', ''public/contact/index.html'',
            ''public/thanks/index.html'']
       = [''/'', ''/services/'', ''/contact/'', ''/thanks/'']
   \<and> globby_fs stored_order example_site GLOBS
       = Inr [''public/index.html'', ''public/services/index.html'', ''public/contact/index.html'']"
    by code_simp
  have m: "matches example_site seo_patterns
       = Inr [''public/index.html'', ''public/services/index.html'', ''public/contact/index.html'',
              ''public/thanks/index.html'']"
    "matches example_site GLOBS
       = Inr [''public/index.html'', ''public/services/index.html'', ''public/contact/index.html'']"
    by code_simp+
  show ?thesis using a by (simp add: globby_fs_def m)
qed

section \<open>The build validator\<close>

lemma dirname_basename:
  assumes "CHR ''/'' \<in> set p"
  shows "dirname p @ ''/'' @ basename p = p"
proof -
  let ?P = "\<lambda>c. c \<noteq> CHR ''/''"
  have ne: "dropWhile ?P (rev p) \<noteq> []" using assms by (simp add: dropWhile_eq_Nil_conv)
  then obtain c t where ct: "dropWhile ?P (rev p) = c # t"
    by (cases "dropWhile ?P (rev p)") auto
  from hd_dropWhile [OF ne] have "c = CHR ''/''" by (simp add: ct)
  with ct have d: "dropWhile ?P (rev p) = CHR ''/'' # t" by simp
  have "rev p = takeWhile ?P (rev p) @ dropWhile ?P (rev p)" by simp
  then have "rev p = takeWhile ?P (rev p) @ CHR ''/'' # t" using d by simp
  then have "rev (rev p) = rev (takeWhile ?P (rev p) @ CHR ''/'' # t)" by simp
  then have "p = rev t @ CHR ''/'' # rev (takeWhile ?P (rev p))" by simp
  moreover have "dirname p = rev t" using assms d by (simp add: dirname_def)
  ultimately show ?thesis by (simp add: basename_def)
qed

lemma dirname_dist:
  assumes "dirname p = distDir"
  shows "distDir @ ''/'' @ basename p = p"
proof -
  have "CHR ''/'' \<in> set p"
  proof (rule ccontr)
    assume "CHR ''/'' \<notin> set p"
    then have "dirname p = ''.''" by (simp add: dirname_def)
    with assms show False by (simp add: distDir_def)
  qed
  from dirname_basename [OF this] assms show ?thesis by simp
qed

lemma htmlFiles_listing:
  assumes "readdir_files s distDir = Inr names"
  shows "set (htmlFiles names) = {p. top_level_html s p}"
proof -
  from assms have names:
    "names = map basename (filter (\<lambda>p. dirname p = distDir) (map fst (fs_files s) @ sealed s))"
    by (simp add: readdir_files_def split: if_splits)
  have fe: "q \<in> set (map fst (fs_files s) @ sealed s) \<longleftrightarrow> file_exists s q" for q
    by (auto simp: file_exists_def)
  show ?thesis
  proof (intro set_eqI iffI)
    fix p assume "p \<in> set (htmlFiles names)"
    then obtain q where q: "q \<in> set (map fst (fs_files s) @ sealed s)" "dirname q = distDir"
      "endsWith (basename q) ''.html''" "p = distDir @ ''/'' @ basename q"
      unfolding htmlFiles_def names by auto
    then have "p = q" using dirname_dist by simp
    with q fe show "p \<in> {p. top_level_html s p}"
      by (simp add: top_level_html_def)
  next
    fix p assume "p \<in> {p. top_level_html s p}"
    then have p: "p \<in> set (map fst (fs_files s) @ sealed s)" "dirname p = distDir"
      "endsWith (basename p) ''.html''"
      using fe by (simp_all add: top_level_html_def)
    then have "distDir @ ''/'' @ basename p \<in> set (htmlFiles names)"
      unfolding htmlFiles_def names by auto
    then show "p \<in> set (htmlFiles names)" using dirname_dist [OF p(2)] by simp
  qed
qed

lemma check_links_found:
  "check_links join s html ls \<noteq> [] \<longleftrightarrow>
     (\<exists>link. Some link \<in> set ls \<and> link \<noteq> [] \<and> \<not> existsSync s (assetPath join link))"
  by (induction join s html ls rule: check_links.induct) auto

lemma missingAssets_Inl:
  "(\<exists>err. missingAssets join refs s files = Inl err)
     \<longleftrightarrow> (\<exists>f \<in> set files. \<exists>err. readFileSync s f = Inl err)"
proof (induction files)
  case Nil
  then show ?case by simp
next
  case (Cons f files)
  show ?case
  proof (cases "readFileSync s f")
    case (Inl err)
    then show ?thesis by auto
  next
    case (Inr html)
    then have "(\<exists>err. missingAssets join refs s (f # files) = Inl err)
        \<longleftrightarrow> (\<exists>err. missingAssets join refs s files = Inl err)"
      by (auto split: sum.splits)
    with Cons.IH Inr show ?thesis by auto
  qed
qed

lemma missingAssets_Inr:
  assumes "missingAssets join refs s files = Inr found"
  shows "found \<noteq> [] \<longleftrightarrow>
          (\<exists>f html link. f \<in> set files \<and> readFileSync s f = Inr html \<and> Some link \<in> set (refs html)
             \<and> link \<noteq> [] \<and> \<not> existsSync s (assetPath join link))"
  using assms
proof (induction files arbitrary: found)
  case Nil
  then show ?case by simp
next
  case (Cons f files)
  from Cons.prems obtain html rest where html: "readFileSync s f = Inr html"
    and rest: "missingAssets join refs s files = Inr rest"
    and found: "found = check_links join s (basename f) (refs html) @ rest"
    by (auto split: sum.splits)
  let ?bad = "\<lambda>h link. Some link \<in> set (refs h) \<and> link \<noteq> [] \<and> \<not> existsSync s (assetPath join link)"
  have iff: "rest \<noteq> [] \<longleftrightarrow> (\<exists>g h link. g \<in> set files \<and> readFileSync s g = Inr h \<and> ?bad h link)"
    using Cons.IH [OF rest] .
  have A: "check_links join s (basename f) (refs html) \<noteq> [] \<longleftrightarrow> (\<exists>link. ?bad html link)"
    by (rule check_links_found)
  have B: "(\<exists>g h link. g \<in> set (f # files) \<and> readFileSync s g = Inr h \<and> ?bad h link)
      \<longleftrightarrow> (\<exists>link. ?bad html link)
          \<or> (\<exists>g h link. g \<in> set files \<and> readFileSync s g = Inr h \<and> ?bad h link)"
    (is "?L \<longleftrightarrow> ?R1 \<or> ?R2")
  proof
    assume ?L
    then obtain g h link where g: "g \<in> set (f # files)" "readFileSync s g = Inr h" "?bad h link"
      by blast
    show "?R1 \<or> ?R2"
    proof (cases "g = f")
      case True
      with g html have "h = html" by simp
      with g show ?thesis by blast
    next
      case False
      with g have "g \<in> set files" by simp
      with g show ?thesis by blast
    qed
  next
    assume "?R1 \<or> ?R2"
    then show ?L
    proof
      assume ?R1
      then obtain link where "?bad html link" by blast
      with html have "f \<in> set (f # files) \<and> readFileSync s f = Inr html \<and> ?bad html link" by simp
      then show ?L by blast
    next
      assume ?R2
      then obtain g h link where "g \<in> set files" "readFileSync s g = Inr h" "?bad h link" by blast
      then have "g \<in> set (f # files) \<and> readFileSync s g = Inr h \<and> ?bad h link" by simp
      then show ?L by blast
    qed
  qed
  have "check_links join s (basename f) (refs html) @ rest \<noteq> [] \<longleftrightarrow>
      (\<exists>g h link. g \<in> set (f # files) \<and> readFileSync s g = Inr h \<and> Some link \<in> set (refs h)
             \<and> link \<noteq> [] \<and> \<not> existsSync s (assetPath join link))"
    using A B iff by simp
  with found show ?case by simp
qed

lemma validate_build_code:
  "fst (validate_build join refs s) \<noteq> 0 \<longleftrightarrow>
     \<not> dir_exists s distDir
     \<or> distDir \<in> set (unreadable s)
     \<or> (\<exists>p. top_level_html s p \<and> readFileSync s p = Inl EACCES)
     \<or> (\<exists>p html link. top_level_html s p \<and> readFileSync s p = Inr html \<and> Some link \<in> set (refs html)
           \<and> link \<noteq> [] \<and> \<not> existsSync s (assetPath join link))"
proof (cases "dir_exists s distDir \<and> distDir \<notin> set (unreadable s)")
  case False
  then have "fst (validate_build join refs s) = 1"
    by (auto simp: validate_build_def readdir_files_def)
  with False show ?thesis by auto
next
  case True
  then have ex: "existsSync s distDir" by (simp add: existsSync_def)
  from True obtain names where names: "readdir_files s distDir = Inr names"
    by (simp add: readdir_files_def)
  have listed: "f \<in> set (htmlFiles names) \<longleftrightarrow> top_level_html s f" for f
    using htmlFiles_listing [OF names] by auto
  have denied: "(\<exists>f \<in> set (htmlFiles names). \<exists>err. readFileSync s f = Inl err)
      \<longleftrightarrow> (\<exists>p. top_level_html s p \<and> readFileSync s p = Inl EACCES)"
  proof
    assume "\<exists>f \<in> set (htmlFiles names). \<exists>err. readFileSync s f = Inl err"
    then obtain f err where f: "top_level_html s f" "readFileSync s f = Inl err"
      using listed by blast
    then have "file_exists s f" by (simp add: top_level_html_def)
    from read_denied [OF this f(2)] f show "\<exists>p. top_level_html s p \<and> readFileSync s p = Inl EACCES"
      by blast
  next
    assume "\<exists>p. top_level_html s p \<and> readFileSync s p = Inl EACCES"
    then show "\<exists>f \<in> set (htmlFiles names). \<exists>err. readFileSync s f = Inl err"
      using listed by blast
  qed
  show ?thesis
  proof (cases "missingAssets join refs s (htmlFiles names)")
    case (Inl err)
    then have "fst (validate_build join refs s) = 1"
      using ex names by (simp add: validate_build_def)
    moreover have "\<exists>p. top_level_html s p \<and> readFileSync s p = Inl EACCES"
      using Inl missingAssets_Inl [of join refs s "htmlFiles names"] denied by blast
    ultimately show ?thesis by auto
  next
    case (Inr found)
    have none: "\<not> (\<exists>p. top_level_html s p \<and> readFileSync s p = Inl EACCES)"
      using Inr missingAssets_Inl [of join refs s "htmlFiles names"] denied by auto
    have code: "fst (validate_build join refs s) \<noteq> 0 \<longleftrightarrow> found \<noteq> []"
      using ex names Inr by (simp add: validate_build_def)
    from missingAssets_Inr [OF Inr] listed
    have m: "found \<noteq> [] \<longleftrightarrow>
          (\<exists>p html link. top_level_html s p \<and> readFileSync s p = Inr html
             \<and> Some link \<in> set (refs html) \<and> link \<noteq> [] \<and> \<not> existsSync s (assetPath join link))"
      by simp
    show ?thesis using code none True m by blast
  qed
qed

lemma empty_link_resolves:
  assumes "join distDir [] = distDir" "dir_exists s distDir"
  shows "existsSync s (assetPath join [])"
proof -
  have "assetPath join [] = distDir"
    using assms(1) by (simp add: assetPath_def cleanLink_def strip_leading_slash_def)
  with assms(2) show ?thesis by (simp add: existsSync_def)
qed

text \<open>
  Claim C10, as the script has it. The validator exits with a non-zero code (1) if
  and only if \<open>dist\<close> is not a directory, or the listing of \<open>dist\<close> is denied, or the
  reading of a top-level HTML file of \<open>dist\<close> is denied, or some top-level HTML file of
  \<open>dist\<close> has a stylesheet \<open>href\<close> or script \<open>src\<close> for which \<open>fs.existsSync\<close> is false on
  the path obtained by cutting the value at the first \<open>?\<close>, removing one leading slash
  and joining the rest to \<open>dist\<close>; otherwise it exits with 0; and it leaves the file
  system as it was. An empty attribute is skipped, and joined to \<open>dist\<close> it would give
  \<open>dist\<close> itself. \<open>fs.existsSync\<close> accepts a directory as well as a file.
\<close>

theorem validate_build_exit:
  "(fst (validate_build join refs s) \<noteq> 0 \<longleftrightarrow>
      \<not> dir_exists s distDir
      \<or> distDir \<in> set (unreadable s)
      \<or> (\<exists>p. top_level_html s p \<and> readFileSync s p = Inl EACCES)
      \<or> (\<exists>p html link. top_level_html s p \<and> readFileSync s p = Inr html \<and> Some link \<in> set (refs html)
            \<and> link \<noteq> [] \<and> \<not> existsSync s (assetPath join link)))
   \<and> (join distDir [] = distDir \<longrightarrow>
        (fst (validate_build join refs s) \<noteq> 0 \<longleftrightarrow>
           \<not> dir_exists s distDir
           \<or> distDir \<in> set (unreadable s)
           \<or> (\<exists>p. top_level_html s p \<and> readFileSync s p = Inl EACCES)
           \<or> (\<exists>p html link. top_level_html s p \<and> readFileSync s p = Inr html
                 \<and> Some link \<in> set (refs html) \<and> \<not> existsSync s (assetPath join link))))
   \<and> (fst (validate_build join refs s) = 0 \<or> fst (validate_build join refs s) = 1)
   \<and> snd (validate_build join refs s) = s
   \<and> assetPath join link = join distDir (strip_leading_slash (cleanLink link))"
proof -
  let ?bad = "\<lambda>link. \<not> existsSync s (assetPath join link)"
  have b: "fst (validate_build join refs s) \<noteq> 0 \<longleftrightarrow>
           \<not> dir_exists s distDir
           \<or> distDir \<in> set (unreadable s)
           \<or> (\<exists>p. top_level_html s p \<and> readFileSync s p = Inl EACCES)
           \<or> (\<exists>p html link. top_level_html s p \<and> readFileSync s p = Inr html
                 \<and> Some link \<in> set (refs html) \<and> ?bad link)"
    if j: "join distDir [] = distDir"
  proof (cases "dir_exists s distDir")
    case False
    then show ?thesis using validate_build_code [of join refs s] by simp
  next
    case True
    have "?bad link \<longleftrightarrow> link \<noteq> [] \<and> ?bad link" for link
      using empty_link_resolves [where join = join and s = s, OF j True] by auto
    then show ?thesis using validate_build_code [of join refs s] by simp
  qed
  have c: "fst (validate_build join refs s) = 0 \<or> fst (validate_build join refs s) = 1"
    by (simp add: validate_build_def split: sum.splits)
  have d: "snd (validate_build join refs s) = s"
    by (simp add: validate_build_def split: sum.splits)
  show ?thesis using validate_build_code [of join refs s] b c d by (simp add: assetPath_def)
qed

theorem validate_build_exit_witness:
  "fst (validate_build plain_join page_refs dist_site) = 0
   \<and> fst (validate_build plain_join page_refs broken_dist) = 1
   \<and> top_level_html broken_dist ''dist/index.html''
   \<and> \<not> existsSync broken_dist (assetPath plain_join ''js/app.js'')
   \<and> fst (validate_build plain_join page_refs empty_fs) = 1
   \<and> fst (validate_build plain_join page_refs unlisted_dist) = 1
   \<and> fst (validate_build plain_join page_refs sealed_dist) = 1
   \<and> snd (validate_build plain_join page_refs broken_dist) = broken_dist"
proof -
  have j: "plain_join distDir [] = distDir" by (simp add: plain_join_def)
  have d0: "dir_exists dist_site distDir" "distDir \<notin> set (unreadable dist_site)" by code_simp+
  have files: "set (map fst (fs_files dist_site))
      = {''dist/index.html'', ''dist/styles.css'', ''dist/js/app.js'', ''dist/js/inner.html''}"
    "sealed dist_site = []"
    by (simp_all add: dist_site_def)
  have tl: "\<not> top_level_html dist_site ''dist/styles.css''" "\<not> top_level_html dist_site ''dist/js/app.js''"
    "\<not> top_level_html dist_site ''dist/js/inner.html''" by code_simp+
  have only: "p = ''dist/index.html''" if "top_level_html dist_site p" for p
    using that files tl by (auto simp: top_level_html_def file_exists_def)
  have rd: "readFileSync dist_site ''dist/index.html'' = Inr ''home''" by code_simp
  have ok1: "\<not> (\<exists>p. top_level_html dist_site p \<and> readFileSync dist_site p = Inl EACCES)"
    using only rd by auto
  have ok: "\<not> (\<exists>p html link. top_level_html dist_site p \<and> readFileSync dist_site p = Inr html
      \<and> Some link \<in> set (page_refs html) \<and> \<not> existsSync dist_site (assetPath plain_join link))"
  proof
    assume "\<exists>p html link. top_level_html dist_site p \<and> readFileSync dist_site p = Inr html
      \<and> Some link \<in> set (page_refs html) \<and> \<not> existsSync dist_site (assetPath plain_join link)"
    then obtain p html link where t: "top_level_html dist_site p"
      and r: "readFileSync dist_site p = Inr html"
      and l: "Some link \<in> set (page_refs html)"
      and m: "\<not> existsSync dist_site (assetPath plain_join link)" by blast
    from only [OF t] have p: "p = ''dist/index.html''" .
    with r rd have h: "html = ''home''" by simp
    have "page_refs ''home'' = [Some ''/styles.css?v=3'', None, Some [], Some ''js/app.js'']" by code_simp
    with l h have "link = ''/styles.css?v=3'' \<or> link = [] \<or> link = ''js/app.js''" by auto
    moreover have "existsSync dist_site (assetPath plain_join ''/styles.css?v=3'')"
      "existsSync dist_site (assetPath plain_join [])"
      "existsSync dist_site (assetPath plain_join ''js/app.js'')" by code_simp+
    ultimately show False using m by blast
  qed
  note i1 = validate_build_exit [where join = plain_join and refs = page_refs and s = dist_site]
  note i2 = validate_build_exit [where join = plain_join and refs = page_refs and s = broken_dist]
  note i3 = validate_build_exit [where join = plain_join and refs = page_refs and s = empty_fs]
  note i4 = validate_build_exit [where join = plain_join and refs = page_refs and s = unlisted_dist]
  note i5 = validate_build_exit [where join = plain_join and refs = page_refs and s = sealed_dist]
  have c1: "fst (validate_build plain_join page_refs dist_site) = 0"
    using i1 j d0 ok ok1 by blast
  have t2: "top_level_html broken_dist ''dist/index.html''" by code_simp
  have r2: "readFileSync broken_dist ''dist/index.html'' = Inr ''home''" by code_simp
  have l2: "Some ''js/app.js'' \<in> set (page_refs ''home'')" by code_simp
  have n2: "''js/app.js'' \<noteq> []" by simp
  have m2: "\<not> existsSync broken_dist (assetPath plain_join ''js/app.js'')" by code_simp
  have c2: "fst (validate_build plain_join page_refs broken_dist) = 1"
    using i2 t2 r2 l2 n2 m2 by blast
  have d3: "\<not> dir_exists empty_fs distDir" by code_simp
  have c3: "fst (validate_build plain_join page_refs empty_fs) = 1"
    using i3 d3 by blast
  have d4: "distDir \<in> set (unreadable unlisted_dist)" by code_simp
  have c4: "fst (validate_build plain_join page_refs unlisted_dist) = 1"
    using i4 d4 by blast
  have t5: "top_level_html sealed_dist ''dist/index.html''" by code_simp
  have r5: "readFileSync sealed_dist ''dist/index.html'' = Inl EACCES" by code_simp
  have c5: "fst (validate_build plain_join page_refs sealed_dist) = 1"
    using i5 t5 r5 by blast
  have c6: "snd (validate_build plain_join page_refs broken_dist) = broken_dist"
    using i2 by blast
  show ?thesis using c1 c2 c3 c4 c5 c6 t2 m2 by blast
qed

text \<open>
  The claim as stated fails in two ways. The reference must exist "as a file": but a
  page that names the directory \<open>/assets\<close> passes, although no file of that name
  exists. And the exit code is to be zero when \<open>dist\<close> exists and no reference is
  missing: but on the complete build output, which passes, the exit code is 1 when
  the listing of \<open>dist\<close> is denied, and when the reading of its page is denied (the
  error is not caught).
\<close>

theorem validate_build_exit_counterexample:
  "top_level_html gallery_dist ''dist/gallery.html''
   \<and> readFileSync gallery_dist ''dist/gallery.html'' = Inr ''gallery''
   \<and> page_refs ''gallery'' = [Some ''/assets'']
   \<and> assetPath plain_join ''/assets'' = ''dist/assets''
   \<and> \<not> file_exists gallery_dist ''dist/assets''
   \<and> dir_exists gallery_dist ''dist/assets''
   \<and> fst (validate_build plain_join page_refs gallery_dist) = 0
   \<and> fst (validate_build plain_join page_refs dist_site) = 0
   \<and> dir_exists unlisted_dist distDir
   \<and> fs_dirs unlisted_dist = fs_dirs dist_site \<and> fs_files unlisted_dist = fs_files dist_site
   \<and> fst (validate_build plain_join page_refs unlisted_dist) = 1
   \<and> dir_exists sealed_dist distDir
   \<and> fs_dirs sealed_dist = fs_dirs dist_site
   \<and> existsSync sealed_dist (assetPath plain_join ''/styles.css?v=3'')
   \<and> existsSync sealed_dist (assetPath plain_join ''js/app.js'')
   \<and> fst (validate_build plain_join page_refs sealed_dist) = 1"
  by code_simp

end
